theory Spec2Isabelle
  imports Main "HOL-Library.Word"
begin

unbundle bit_operations_syntax

section \<open>The relay module of ESPurna (relay.ino)\<close>

text \<open>
  A shallow embedding of \<^verbatim>\<open>code/espurna/relay.ino\<close>. The module's globals
  (\<^verbatim>\<open>_relays\<close>, \<^verbatim>\<open>_relayRecursive\<close>, \<^verbatim>\<open>_relaySaveTicker\<close>) and the
  parts of the environment it reads and writes (the clock \<^verbatim>\<open>millis()\<close>, the EEPROM byte,
  the calls made to other modules) are the fields of one state record which every function
  takes and returns. An \<^verbatim>\<open>unsigned char\<close> is an \<open>8 word\<close>, an \<^verbatim>\<open>unsigned long\<close>
  a \<open>32 word\<close> (the ESP8266 is a 32-bit target), so every sum and difference wraps as it
  does in the firmware. Relay identifiers are natural numbers; the vector never holds more
  than 255 records, since both loops that fill it count in an \<^verbatim>\<open>unsigned char\<close>.
  The clock is an input: the field \<open>millis\<close> is what \<^verbatim>\<open>millis()\<close> returns, and it
  keeps its value during one call of a function of the module. The debug messages are
  left out. A leading underscore is dropped from a name (\<^verbatim>\<open>_relayLoop\<close> is
  \<open>relayLoop\<close>).
\<close>

subsection \<open>Data\<close>

type_synonym uchar = "8 word"
type_synonym ulong = "32 word"

text \<open>The function a \<^verbatim>\<open>Ticker\<close> calls when it fires, and a ticker seen from its owner:
  detached, or armed once for a number of milliseconds.\<close>

datatype callback = RelayToggle nat | RelaySave

datatype ticker = Detached | Once_ms ulong callback

definition detach :: "ticker \<Rightarrow> ticker" where
  "detach t = Detached"

definition once_ms :: "ulong \<Rightarrow> callback \<Rightarrow> ticker \<Rightarrow> ticker" where
  "once_ms ms cb t = Once_ms ms cb"

record relay_t =
  pin :: uchar
  type :: uchar
  reset_pin :: uchar
  delay_on :: ulong
  delay_off :: ulong
  pulse :: uchar
  pulse_ms :: ulong
  current_status :: bool
  target_status :: bool
  fw_start :: ulong
  fw_count :: uchar
  change_time :: ulong
  report :: bool
  group_report :: bool
  pulseTicker :: ticker

text \<open>The relay providers, selected at compile time by \<^verbatim>\<open>RELAY_PROVIDER\<close>.\<close>

datatype provider =
  RELAY_PROVIDER_RELAY | RELAY_PROVIDER_DUAL | RELAY_PROVIDER_LIGHT
  | RELAY_PROVIDER_RFBRIDGE | RELAY_PROVIDER_STM

text \<open>Calls that leave the module, in the order they are made.\<close>

datatype event =
  DigitalWrite uchar bool
  | PinMode uchar
  | NiceDelay ulong
  | SerialFlush
  | SerialWrite uchar
  | RfbStatus nat bool
  | LightStateChannel nat bool
  | LightState bool
  | LightUpdate bool bool
  | BrokerPublish nat bool
  | MqttSend nat bool
  | MqttSendRaw string bool
  | WsSend
  | DomoticzSendRelay nat
  | IdbSend nat bool
  | TspkEnqueueRelay nat bool
  | TspkFlush
  | LedUpdate bool
  | EepromCommit

text \<open>
  The constants of the build (macros of headers that are not part of this file) and the
  values that \<^verbatim>\<open>getSetting\<close> returns, already converted as the caller converts them
  (\<^verbatim>\<open>toInt()\<close> narrowed to the variable's type; \<open>rlyTime_ms\<close> is
  \<^verbatim>\<open>1000 * getSetting("rlyTime", id, RELAY_PULSE_MODE).toFloat()\<close> as an
  \<^verbatim>\<open>unsigned long\<close>, and \<open>rlyTime_configure_ms\<close> the same product with the
  default \<^verbatim>\<open>RELAY_PULSE_TIME\<close> that \<^verbatim>\<open>_relayConfigure\<close> passes).
  They are parameters of the model.
\<close>

record config =
  RELAY_PROVIDER :: provider
  RELAY_TYPE_NORMAL :: uchar
  RELAY_TYPE_INVERSE :: uchar
  RELAY_TYPE_LATCHED :: uchar
  RELAY_TYPE_LATCHED_INVERSE :: uchar
  GPIO_NONE :: uchar
  RELAY_LATCHING_PULSE :: ulong
  RELAY_PULSE_NONE :: uchar
  RELAY_PULSE_ON :: uchar
  RELAY_FLOOD_WINDOW :: ulong
  RELAY_FLOOD_CHANGES :: int
  RELAY_SYNC_ANY :: uchar
  RELAY_SYNC_ONE :: uchar
  RELAY_SYNC_SAME :: uchar
  RELAY_BOOT_SAME :: uchar
  RELAY_BOOT_TOGGLE :: uchar
  RELAY_BOOT_ON :: uchar
  RELAY_SAVE_DELAY :: ulong
  BROKER_SUPPORT :: bool
  MQTT_SUPPORT :: bool
  WEB_SUPPORT :: bool
  DOMOTICZ_SUPPORT :: bool
  INFLUXDB_SUPPORT :: bool
  THINGSPEAK_SUPPORT :: bool
  LED_SUPPORT :: bool
  lightChannels :: nat
  rlySync :: uchar
  rlyBoot :: "nat \<Rightarrow> uchar"
  rlyPulse :: "nat \<Rightarrow> uchar"
  rlyTime_ms :: "nat \<Rightarrow> ulong"
  mqttGroup :: "nat \<Rightarrow> string"
  mqttGroupInv :: "nat \<Rightarrow> int"
  MAX_COMPONENTS :: nat
  rlyDummy :: uchar
  rlyGPIO :: "nat \<Rightarrow> uchar"
  rlyType :: "nat \<Rightarrow> uchar"
  rlyResetGPIO :: "nat \<Rightarrow> uchar"
  rlyDelayOn :: "nat \<Rightarrow> ulong"
  rlyDelayOff :: "nat \<Rightarrow> ulong"
  rlyTime_configure_ms :: "nat \<Rightarrow> ulong"

record state =
  relays :: "relay_t list"
  relayRecursive :: bool
  relaySaveTicker :: ticker
  millis :: ulong
  eeprom :: uchar
  calls :: "event list"

definition emit :: "event list \<Rightarrow> state \<Rightarrow> state" where
  "emit es s = s\<lparr>calls := calls s @ es\<rparr>"

text \<open>\<^verbatim>\<open>_relays[id].field = ...\<close>: an update of one record of the vector.\<close>

definition set_relay :: "nat \<Rightarrow> (relay_t \<Rightarrow> relay_t) \<Rightarrow> state \<Rightarrow> state" where
  "set_relay rid f s = s\<lparr>relays := (relays s)[rid := f (relays s ! rid)]\<rparr>"

subsection \<open>Providers\<close>

text \<open>The mask that the DUAL provider sends: \<^verbatim>\<open>mask = mask + (1 << i)\<close> for every relay
  that is on, stored back into an \<^verbatim>\<open>unsigned char\<close>.\<close>

function dual_mask :: "relay_t list \<Rightarrow> nat \<Rightarrow> uchar \<Rightarrow> uchar" where
  "dual_mask rs i mask' =
     (if i < length rs
      then dual_mask rs (i + 1) (if current_status (rs ! i) then mask' + push_bit i 1 else mask')
      else mask')"
  by pat_completeness auto
termination
  by (relation "measure (\<lambda>(rs, i, mask'). length rs - i)") auto

declare dual_mask.simps [simp del]

definition light_calls :: "config \<Rightarrow> nat \<Rightarrow> nat \<Rightarrow> bool \<Rightarrow> event list" where
  "light_calls c size' rid status =
     (if size' = lightChannels c then [LightStateChannel rid status, LightState True]
      else if size' = lightChannels c + 1
      then (if rid = 0 then [LightState status] else [LightStateChannel (rid - 1) status])
      else [LightState status])
     @ [LightUpdate True True]"

definition gpio_calls :: "config \<Rightarrow> relay_t \<Rightarrow> bool \<Rightarrow> event list" where
  "gpio_calls c r status =
     (if type r = RELAY_TYPE_NORMAL c then [DigitalWrite (pin r) status]
      else if type r = RELAY_TYPE_INVERSE c then [DigitalWrite (pin r) (\<not> status)]
      else if type r = RELAY_TYPE_LATCHED c \<or> type r = RELAY_TYPE_LATCHED_INVERSE c
      then (let pulse' = (RELAY_TYPE_LATCHED c \<noteq> 0)
            in [DigitalWrite (pin r) (\<not> pulse')]
               @ (if GPIO_NONE c \<noteq> reset_pin r then [DigitalWrite (reset_pin r) (\<not> pulse')] else [])
               @ (if status \<or> GPIO_NONE c = reset_pin r
                  then [DigitalWrite (pin r) pulse'] else [DigitalWrite (reset_pin r) pulse'])
               @ [NiceDelay (RELAY_LATCHING_PULSE c)]
               @ [DigitalWrite (pin r) (\<not> pulse')]
               @ (if GPIO_NONE c \<noteq> reset_pin r then [DigitalWrite (reset_pin r) (\<not> pulse')] else []))
      else [])"

definition relayProviderStatus :: "config \<Rightarrow> state \<Rightarrow> nat \<Rightarrow> bool \<Rightarrow> state" where
  "relayProviderStatus c s rid status =
     (if length (relays s) \<le> rid then s
      else let s1 = set_relay rid (\<lambda>r. r\<lparr>current_status := status\<rparr>) s
           in case RELAY_PROVIDER c of
                RELAY_PROVIDER_RFBRIDGE \<Rightarrow> emit [RfbStatus rid status] s1
              | RELAY_PROVIDER_DUAL \<Rightarrow>
                  emit [SerialFlush, SerialWrite 0xA0, SerialWrite 0x04,
                        SerialWrite (dual_mask (relays s1) 0 0), SerialWrite 0xA1, SerialFlush] s1
              | RELAY_PROVIDER_STM \<Rightarrow>
                  emit [SerialFlush, SerialWrite 0xA0, SerialWrite (of_nat rid + 1),
                        SerialWrite (of_bool status),
                        SerialWrite (0xA1 + of_bool status + of_nat rid), SerialFlush] s1
              | RELAY_PROVIDER_LIGHT \<Rightarrow> emit (light_calls c (length (relays s1)) rid status) s1
              | RELAY_PROVIDER_RELAY \<Rightarrow> emit (gpio_calls c (relays s1 ! rid) status) s1)"

subsection \<open>Status, pulse and synchronisation\<close>

text \<open>\<^verbatim>\<open>bool relayStatus(unsigned char id)\<close>, the getter.\<close>

definition relayStatus_get :: "state \<Rightarrow> nat \<Rightarrow> bool" where
  "relayStatus_get s rid =
     (if length (relays s) \<le> rid then False else current_status (relays s ! rid))"

text \<open>
  \<^verbatim>\<open>relayPulse\<close> indexes \<^verbatim>\<open>_relays[id]\<close> without comparing \<open>id\<close> with the size of the
  vector. \<open>relayPulse_at\<close> is its body, which is what runs at the call sites where
  \<open>id\<close> has been checked; \<open>relayPulse\<close> is the function as any caller may call it, and
  an index outside the vector has no defined result (\<open>None\<close>).
\<close>

definition relayPulse_at :: "config \<Rightarrow> state \<Rightarrow> nat \<Rightarrow> state" where
  "relayPulse_at c s rid =
     (let s1 = set_relay rid (\<lambda>r. r\<lparr>pulseTicker := detach (pulseTicker r)\<rparr>) s;
          mode = pulse (relays s1 ! rid)
      in if mode = RELAY_PULSE_NONE c then s1
         else let ms = pulse_ms (relays s1 ! rid)
              in if ms = 0 then s1
                 else let status = relayStatus_get s1 rid;
                          pulseStatus = (mode = RELAY_PULSE_ON c)
                      in if pulseStatus \<noteq> status
                         then set_relay rid (\<lambda>r. r\<lparr>pulse_ms := rlyTime_ms c rid\<rparr>)
                               (set_relay rid (\<lambda>r. r\<lparr>pulse := rlyPulse c rid\<rparr>)
                                 (set_relay rid
                                    (\<lambda>r. r\<lparr>pulseTicker :=
                                             once_ms ms (RelayToggle rid) (pulseTicker r)\<rparr>) s1))
                         else s1)"

definition relayPulse :: "config \<Rightarrow> state \<Rightarrow> nat \<Rightarrow> state option" where
  "relayPulse c s rid =
     (if length (relays s) \<le> rid then None else Some (relayPulse_at c s rid))"

text \<open>The flood window: what the \<^verbatim>\<open>else\<close> branch of \<^verbatim>\<open>relayStatus\<close> does to
  \<open>fw_start\<close>, \<open>fw_count\<close> and \<open>change_time\<close> of the relay.\<close>

definition flood_window :: "config \<Rightarrow> ulong \<Rightarrow> bool \<Rightarrow> relay_t \<Rightarrow> relay_t" where
  "flood_window c current_time status r =
     (let fw_end = fw_start r + 1000 * RELAY_FLOOD_WINDOW c;
          delay = (if status then delay_on r else delay_off r);
          r1 = r\<lparr>fw_count := fw_count r + 1\<rparr>;
          r2 = r1\<lparr>change_time := current_time + delay\<rparr>
      in if current_time < fw_start r2 \<or> fw_end \<le> current_time
         then r2\<lparr>fw_start := current_time, fw_count := 1\<rparr>
         else if RELAY_FLOOD_CHANGES c \<le> uint (fw_count r2)
         then (if current_time < fw_end - delay then r2\<lparr>change_time := fw_end\<rparr> else r2)
         else r2)"

text \<open>
  \<^verbatim>\<open>relayStatus(id, status, report, group_report)\<close> calls \<^verbatim>\<open>relaySync\<close>, whose loops
  call \<^verbatim>\<open>relayStatus(i, status)\<close>, the overload that passes \<open>true, true\<close>.
  \<open>relaySync_others\<close> is the loop \<^verbatim>\<open>for (i = 0; i < _relays.size(); i++) if (i != id)
  relayStatus(i, status)\<close>, which the source has twice (with \<open>status\<close> and with
  \<open>false\<close>). The result of \<open>relayStatus\<close> is the value returned and the new state.
\<close>

function relayStatus :: "config \<Rightarrow> state \<Rightarrow> nat \<Rightarrow> bool \<Rightarrow> bool \<Rightarrow> bool \<Rightarrow> bool \<times> state"
  and relaySync :: "config \<Rightarrow> state \<Rightarrow> nat \<Rightarrow> state"
  and relaySync_others :: "config \<Rightarrow> state \<Rightarrow> nat \<Rightarrow> bool \<Rightarrow> nat \<Rightarrow> state"
where
  "relayStatus c s rid status report' group_report' =
     (if length (relays s) \<le> rid then (False, s)
      else if current_status (relays s ! rid) = status
      then (let changed = (target_status (relays s ! rid) \<noteq> status);
                s1 = (if changed
                      then set_relay rid
                             (\<lambda>r. r\<lparr>target_status := status, report := False,
                                     group_report := False\<rparr>) s
                      else s);
                s2 = (if RELAY_PROVIDER c = RELAY_PROVIDER_RFBRIDGE
                      then emit [RfbStatus rid status] s1 else s1)
            in (changed, relayPulse_at c s2 rid))
      else (let current_time = millis s;
                s1 = set_relay rid (flood_window c current_time status) s;
                s2 = set_relay rid (\<lambda>r. r\<lparr>target_status := status\<rparr>) s1;
                s3 = (if report' then set_relay rid (\<lambda>r. r\<lparr>report := True\<rparr>) s2 else s2);
                s4 = (if group_report'
                      then set_relay rid (\<lambda>r. r\<lparr>group_report := True\<rparr>) s3 else s3)
            in (True, relaySync c s4 rid)))"
| "relaySync c s rid =
     (if length (relays s) < 2 then s
      else if relayRecursive s then s
      else let s1 = s\<lparr>relayRecursive := True\<rparr>;
               relaySync' = rlySync c;
               status = target_status (relays s1 ! rid);
               s2 = (if relaySync' = RELAY_SYNC_SAME c then relaySync_others c s1 rid status 0
                     else if status
                     then (if relaySync' \<noteq> RELAY_SYNC_ANY c
                           then relaySync_others c s1 rid False 0 else s1)
                     else (if relaySync' = RELAY_SYNC_ONE c
                           then snd (relayStatus c s1 ((rid + 1) mod length (relays s1))
                                       True True True)
                           else s1))
           in s2\<lparr>relayRecursive := False\<rparr>)"
| "relaySync_others c s rid status i =
     (if i < length (relays s)
      then relaySync_others c
             (if i \<noteq> rid then snd (relayStatus c s i status True True) else s)
             rid status (i + 1)
      else s)"
  by pat_completeness auto

lemma length_set_relay [simp]: "length (relays (set_relay rid f s)) = length (relays s)"
  by (simp add: set_relay_def)

lemma relayRecursive_set_relay [simp]: "relayRecursive (set_relay rid f s) = relayRecursive s"
  by (simp add: set_relay_def)

lemma length_emit [simp]: "length (relays (emit es s)) = length (relays s)"
  by (simp add: emit_def)

lemma relayRecursive_emit [simp]: "relayRecursive (emit es s) = relayRecursive s"
  by (simp add: emit_def)

lemma length_relayPulse_at [simp]: "length (relays (relayPulse_at c s rid)) = length (relays s)"
  by (simp add: relayPulse_at_def Let_def)

lemma relayRecursive_relayPulse_at [simp]:
  "relayRecursive (relayPulse_at c s rid) = relayRecursive s"
  by (simp add: relayPulse_at_def Let_def)

text \<open>Where the three functions are defined, they keep the number of relays and leave
  the flag as they found it; the recursion ends for that reason.\<close>

lemma relayStatus_dom_frame:
  "relayStatus_relaySync_relaySync_others_dom (Inl (c, s, rid, status, rp, gr)) \<Longrightarrow>
     length (relays (snd (relayStatus c s rid status rp gr))) = length (relays s) \<and>
     relayRecursive (snd (relayStatus c s rid status rp gr)) = relayRecursive s"
  "relayStatus_relaySync_relaySync_others_dom (Inr (Inl (c, s, rid))) \<Longrightarrow>
     length (relays (relaySync c s rid)) = length (relays s) \<and>
     relayRecursive (relaySync c s rid) = relayRecursive s"
  "relayStatus_relaySync_relaySync_others_dom (Inr (Inr (c, s, rid, status, i))) \<Longrightarrow>
     length (relays (relaySync_others c s rid status i)) = length (relays s) \<and>
     relayRecursive (relaySync_others c s rid status i) = relayRecursive s"
proof (induct rule: relayStatus_relaySync_relaySync_others.pinduct)
  case (1 c s rid status rp gr)
  then show ?case
    by (simp add: relayStatus.psimps Let_def)
next
  case (2 c s rid)
  then show ?case
    by (simp add: relaySync.psimps Let_def)
next
  case (3 c s rid status i)
  then show ?case
    by (simp add: relaySync_others.psimps)
qed

termination relayStatus
proof (relation "measures
    [\<lambda>x. case x of Inl (c, s, _) \<Rightarrow> (if relayRecursive s then 0 else 1)
               | Inr (Inl (c, s, _)) \<Rightarrow> (if relayRecursive s then 0 else 1)
               | Inr (Inr (c, s, _)) \<Rightarrow> (if relayRecursive s then 0 else 1),
     \<lambda>x. case x of Inl _ \<Rightarrow> 1 | Inr (Inl _) \<Rightarrow> 0 | Inr (Inr _) \<Rightarrow> 2,
     \<lambda>x. case x of Inr (Inr (c, s, rid, status, i)) \<Rightarrow> length (relays s) - i | _ \<Rightarrow> 0]",
    goal_cases)
  case 1
  show ?case by simp
next
  case (2 c s rid status rp gr)
  then show ?case by simp
next
  case (3 c s rid)
  then show ?case by simp
next
  case (4 c s rid)
  then show ?case by simp
next
  case (5 c s rid)
  then show ?case by simp
next
  case (6 c s rid status i)
  then show ?case by simp
next
  case (7 c s rid status i)
  then show ?case
    using relayStatus_dom_frame(1) [of c s i status True True] by auto
qed

declare relayStatus.simps [simp del] relaySync.simps [simp del] relaySync_others.simps [simp del]

text \<open>\<^verbatim>\<open>bool relayStatus(unsigned char id, bool status)\<close>.\<close>

definition relayStatus2 :: "config \<Rightarrow> state \<Rightarrow> nat \<Rightarrow> bool \<Rightarrow> bool \<times> state" where
  "relayStatus2 c s rid status = relayStatus c s rid status True True"

definition relayToggle :: "config \<Rightarrow> state \<Rightarrow> nat \<Rightarrow> bool \<Rightarrow> bool \<Rightarrow> state" where
  "relayToggle c s rid report' group_report' =
     (if length (relays s) \<le> rid then s
      else snd (relayStatus c s rid (\<not> relayStatus_get s rid) report' group_report'))"

definition relayCount :: "state \<Rightarrow> nat" where
  "relayCount s = length (relays s)"

subsection \<open>The scheduler\<close>

definition relayMQTT :: "config \<Rightarrow> state \<Rightarrow> nat \<Rightarrow> state" where
  "relayMQTT c s rid =
     (if length (relays s) \<le> rid then s
      else let s1 = (if report (relays s ! rid)
                     then emit [MqttSend rid (current_status (relays s ! rid))]
                            (set_relay rid (\<lambda>r. r\<lparr>report := False\<rparr>) s)
                     else s)
           in if group_report (relays s1 ! rid)
              then (let s2 = set_relay rid (\<lambda>r. r\<lparr>group_report := False\<rparr>) s1;
                        t = mqttGroup c rid
                    in if 0 < length t
                       then (let status = relayStatus_get s2 rid;
                                 status = (if mqttGroupInv c rid = 1 then \<not> status else status)
                             in emit [MqttSendRaw t status] s2)
                       else s2)
              else s1)"

definition relayInfluxDB :: "config \<Rightarrow> state \<Rightarrow> nat \<Rightarrow> state" where
  "relayInfluxDB c s rid =
     (if length (relays s) \<le> rid then s else emit [IdbSend rid (relayStatus_get s rid)] s)"

text \<open>The body of the loop of \<^verbatim>\<open>_relayProcess\<close> for one relay. The clock is read once,
  before the loop, into \<open>current_time\<close>.\<close>

definition relayProcess_step :: "config \<Rightarrow> bool \<Rightarrow> ulong \<Rightarrow> state \<Rightarrow> nat \<Rightarrow> state" where
  "relayProcess_step c mode current_time s rid =
     (let target = target_status (relays s ! rid)
      in if target = current_status (relays s ! rid) then s
         else if target \<noteq> mode then s
         else if current_time < change_time (relays s ! rid) then s
         else (let s1 = relayProviderStatus c s rid target;
                   s2 = (if BROKER_SUPPORT c then emit [BrokerPublish rid target] s1 else s1);
                   s3 = (if MQTT_SUPPORT c then relayMQTT c s2 rid else s2);
                   s4 = (if \<not> relayRecursive s3
                         then (let p = relayPulse_at c s3 rid;
                                   q = p\<lparr>relaySaveTicker :=
                                          once_ms (RELAY_SAVE_DELAY c) RelaySave (relaySaveTicker p)\<rparr>
                               in if WEB_SUPPORT c then emit [WsSend] q else q)
                         else s3);
                   s5 = (if DOMOTICZ_SUPPORT c then emit [DomoticzSendRelay rid] s4 else s4);
                   s6 = (if INFLUXDB_SUPPORT c then relayInfluxDB c s5 rid else s5);
                   s7 = (if THINGSPEAK_SUPPORT c
                         then emit [TspkEnqueueRelay rid target, TspkFlush] s6 else s6);
                   s8 = (if LED_SUPPORT c then emit [LedUpdate True] s7 else s7)
               in set_relay rid (\<lambda>r. r\<lparr>group_report := False\<rparr>)
                    (set_relay rid (\<lambda>r. r\<lparr>report := False\<rparr>) s8)))"

lemma length_relayProviderStatus [simp]:
  "length (relays (relayProviderStatus c s rid status)) = length (relays s)"
  by (simp add: relayProviderStatus_def Let_def split: provider.split)

lemma length_relayMQTT [simp]: "length (relays (relayMQTT c s rid)) = length (relays s)"
  by (simp add: relayMQTT_def Let_def)

lemma length_relayInfluxDB [simp]: "length (relays (relayInfluxDB c s rid)) = length (relays s)"
  by (simp add: relayInfluxDB_def)

lemma length_relayProcess_step [simp]:
  "length (relays (relayProcess_step c mode t s rid)) = length (relays s)"
  by (simp add: relayProcess_step_def Let_def)

function relayProcess_loop :: "config \<Rightarrow> bool \<Rightarrow> ulong \<Rightarrow> state \<Rightarrow> nat \<Rightarrow> state" where
  "relayProcess_loop c mode current_time s rid =
     (if rid < length (relays s)
      then relayProcess_loop c mode current_time
             (relayProcess_step c mode current_time s rid) (rid + 1)
      else s)"
  by pat_completeness auto
termination
  by (relation "measure (\<lambda>(c, mode, t, s, rid). length (relays s) - rid)") auto

declare relayProcess_loop.simps [simp del]

definition relayProcess :: "config \<Rightarrow> state \<Rightarrow> bool \<Rightarrow> state" where
  "relayProcess c s mode = relayProcess_loop c mode (millis s) s 0"

definition relayLoop :: "config \<Rightarrow> state \<Rightarrow> state" where
  "relayLoop c s = relayProcess c (relayProcess c s False) True"

subsection \<open>Persistence and boot\<close>

text \<open>The loop of \<^verbatim>\<open>relaySave\<close>; \<open>bit'\<close> and \<open>mask'\<close> are its two
  \<^verbatim>\<open>unsigned char\<close> variables.\<close>

function relaySave_loop :: "state \<Rightarrow> nat \<Rightarrow> uchar \<Rightarrow> uchar \<Rightarrow> uchar" where
  "relaySave_loop s i bit' mask' =
     (if i < length (relays s)
      then relaySave_loop s (i + 1) (bit' + bit')
             (if relayStatus_get s i then mask' + bit' else mask')
      else mask')"
  by pat_completeness auto
termination
  by (relation "measure (\<lambda>(s, i, bit', mask'). length (relays s) - i)") auto

declare relaySave_loop.simps [simp del]

definition relaySave :: "state \<Rightarrow> state" where
  "relaySave s = emit [EepromCommit] (s\<lparr>eeprom := relaySave_loop s 0 1 0\<rparr>)"

text \<open>The loop of \<^verbatim>\<open>_relayBoot\<close>. It returns the state with the two variables that
  are read after the loop, \<open>mask\<close> and \<open>trigger_save\<close>.\<close>

function relayBoot_loop ::
  "config \<Rightarrow> state \<Rightarrow> nat \<Rightarrow> uchar \<Rightarrow> uchar \<Rightarrow> bool \<Rightarrow> state \<times> uchar \<times> bool" where
  "relayBoot_loop c s i bit' mask' trigger_save =
     (if i < length (relays s)
      then (let boot_mode = rlyBoot c i;
                (status, mask2, trigger2) =
                  (if boot_mode = RELAY_BOOT_SAME c
                   then ((mask' AND bit') = bit', mask', trigger_save)
                   else if boot_mode = RELAY_BOOT_TOGGLE c
                   then ((mask' AND bit') \<noteq> bit', mask' XOR bit', True)
                   else if boot_mode = RELAY_BOOT_ON c then (True, mask', trigger_save)
                   else (False, mask', trigger_save));
                s1 = set_relay i (\<lambda>r. r\<lparr>current_status := \<not> status\<rparr>) s;
                s2 = set_relay i (\<lambda>r. r\<lparr>target_status := status\<rparr>) s1;
                s3 = set_relay i
                       (\<lambda>r. r\<lparr>change_time :=
                               (if RELAY_PROVIDER c = RELAY_PROVIDER_STM
                                then millis s2 + 3000 + 1000 * of_nat i else millis s2)\<rparr>) s2
            in relayBoot_loop c s3 (i + 1) (push_bit 1 bit') mask2 trigger2)
      else (s, mask', trigger_save))"
  by pat_completeness auto
termination
  by (relation "measure (\<lambda>(c, s, i, bit', mask', trigger_save). length (relays s) - i)") auto

declare relayBoot_loop.simps [simp del]

definition relayBoot :: "config \<Rightarrow> state \<Rightarrow> state" where
  "relayBoot c s =
     (let s0 = s\<lparr>relayRecursive := True\<rparr>;
          (s1, mask', trigger_save) = relayBoot_loop c s0 0 1 (eeprom s0) False;
          s2 = (if trigger_save then emit [EepromCommit] (s1\<lparr>eeprom := mask'\<rparr>) else s1)
      in s2\<lparr>relayRecursive := False\<rparr>)"

subsection \<open>Configuration\<close>

text \<open>
  The loop of \<^verbatim>\<open>_relayClear\<close>: \<^verbatim>\<open>relay_t element = _relays[i]\<close> initialises a local
  record from the one in the vector, and \<^verbatim>\<open>element.pulseTicker.detach()\<close> is called on
  the ticker of that local record, which goes out of scope at the end of the iteration.
\<close>

function relayClear_loop :: "state \<Rightarrow> nat \<Rightarrow> state" where
  "relayClear_loop s i =
     (if i < length (relays s)
      then (let element = relays s ! i;
                element = element\<lparr>pulseTicker := detach (pulseTicker element)\<rparr>
            in relayClear_loop s (i + 1))
      else s)"
  by pat_completeness auto
termination
  by (relation "measure (\<lambda>(s, i). length (relays s) - i)") auto

declare relayClear_loop.simps [simp del]

definition relayClear :: "state \<Rightarrow> state" where
  "relayClear s = (relayClear_loop s 0)\<lparr>relays := []\<rparr>"

text \<open>An aggregate \<^verbatim>\<open>(relay_t) { ... }\<close>: the members that are not listed are
  zero, and the ticker is a fresh one.\<close>

definition new_relay ::
  "uchar \<Rightarrow> uchar \<Rightarrow> uchar \<Rightarrow> ulong \<Rightarrow> ulong \<Rightarrow> uchar \<Rightarrow> ulong \<Rightarrow> relay_t" where
  "new_relay p ty rst d_on d_off pu pu_ms =
     \<lparr>pin = p, type = ty, reset_pin = rst, delay_on = d_on, delay_off = d_off,
      pulse = pu, pulse_ms = pu_ms, current_status = False, target_status = False,
      fw_start = 0, fw_count = 0, change_time = 0, report = False, group_report = False,
      pulseTicker = Detached\<rparr>"

definition push_back :: "relay_t \<Rightarrow> state \<Rightarrow> state" where
  "push_back r s = s\<lparr>relays := relays s @ [r]\<rparr>"

function configure_dummy :: "config \<Rightarrow> state \<Rightarrow> nat \<Rightarrow> state" where
  "configure_dummy c s index =
     (if index < unat (rlyDummy c)
      then configure_dummy c
             (push_back (new_relay 0 (RELAY_TYPE_NORMAL c) 0 (rlyDelayOn c index)
                           (rlyDelayOff c index) 0 0) s)
             (index + 1)
      else s)"
  by pat_completeness auto
termination
  by (relation "measure (\<lambda>(c, s, index). unat (rlyDummy c) - index)") auto

declare configure_dummy.simps [simp del]

function configure_gpio :: "config \<Rightarrow> state \<Rightarrow> nat \<Rightarrow> state" where
  "configure_gpio c s index =
     (if index < MAX_COMPONENTS c
      then (let pin' = rlyGPIO c index
            in if GPIO_NONE c = pin' then s
               else (let s1 = emit [PinMode pin'] s;
                         type' = rlyType c index;
                         s2 = (if RELAY_TYPE_INVERSE c = type'
                               then emit [DigitalWrite pin' True] s1 else s1);
                         reset = rlyResetGPIO c index;
                         s3 = (if GPIO_NONE c \<noteq> reset then emit [PinMode reset] s2 else s2)
                     in configure_gpio c
                          (push_back (new_relay pin' type' reset (rlyDelayOn c index)
                                        (rlyDelayOff c index) (rlyPulse c index)
                                        (rlyTime_configure_ms c index)) s3)
                          (index + 1)))
      else s)"
  by pat_completeness auto
termination
  by (relation "measure (\<lambda>(c, s, index). MAX_COMPONENTS c - index)") auto

declare configure_gpio.simps [simp del]

definition relayConfigure :: "config \<Rightarrow> state \<Rightarrow> state" where
  "relayConfigure c s =
     (let s1 = relayClear s
      in if 0 < rlyDummy c then configure_dummy c s1 0 else configure_gpio c s1 0)"

subsection \<open>Payloads\<close>

text \<open>\<^verbatim>\<open>tolower\<close> of the C library, in the C locale.\<close>

definition tolower :: "char \<Rightarrow> char" where
  "tolower ch =
     (if 65 \<le> (of_char ch :: nat) \<and> (of_char ch :: nat) \<le> 90
      then char_of ((of_char ch :: nat) + 32) else ch)"

text \<open>
  A payload is a C string, here the list of its characters before the terminating zero,
  so that \<^verbatim>\<open>payload[0]\<close> of the empty payload is no digit. \<^verbatim>\<open>ltrim\<close> is a helper of
  another file of the firmware and is a parameter here. The 255 comes from
  \<^verbatim>\<open>unsigned int value = 0xFF\<close>, returned as an \<^verbatim>\<open>unsigned char\<close>.
\<close>

definition relayParsePayload :: "(string \<Rightarrow> string) \<Rightarrow> string \<Rightarrow> uchar" where
  "relayParsePayload ltrim payload =
     (if take 1 payload = ''0'' then 0
      else if take 1 payload = ''1'' then 1
      else if take 1 payload = ''2'' then 2
      else (let p = ltrim payload;
                l = length p;
                l = (if 6 < l then 6 else l);
                p = map tolower (take l p) @ drop l p
            in if p = ''off'' then 0
               else if p = ''on'' then 1
               else if p = ''toggle'' then 2
               else if p = ''query'' then 3
               else 0xFF))"

text \<open>
  Modelled from the spec: \<^verbatim>\<open>ltrim\<close>, which \<^verbatim>\<open>relayParsePayload\<close> calls under the comment
  \<^verbatim>\<open>// trim payload\<close>, is defined in another file of the firmware, and the specification
  does not describe it. As its name says it trims on the left: it returns the string from
  its first character that is not a space.
\<close>

definition ltrim :: "string \<Rightarrow> string" where
  "ltrim p = dropWhile (\<lambda>ch. ch = CHR '' '') p"

section \<open>A concrete build and concrete states\<close>

text \<open>
  A build with a flood window of 3 s and 5 changes, as in the specification's scenario,
  distinct values for the constants of each family, the GPIO provider, no optional
  module, and settings that leave every relay without delay, pulse or group and give
  every relay the boot mode \<^verbatim>\<open>RELAY_BOOT_SAME\<close>.
\<close>

definition example_config :: config where
  "example_config =
     \<lparr>RELAY_PROVIDER = RELAY_PROVIDER_RELAY,
      RELAY_TYPE_NORMAL = 0, RELAY_TYPE_INVERSE = 1, RELAY_TYPE_LATCHED = 2,
      RELAY_TYPE_LATCHED_INVERSE = 3, GPIO_NONE = 0x99, RELAY_LATCHING_PULSE = 10,
      RELAY_PULSE_NONE = 0, RELAY_PULSE_ON = 2,
      RELAY_FLOOD_WINDOW = 3, RELAY_FLOOD_CHANGES = 5,
      RELAY_SYNC_ANY = 0, RELAY_SYNC_ONE = 2, RELAY_SYNC_SAME = 3,
      RELAY_BOOT_SAME = 2, RELAY_BOOT_TOGGLE = 3, RELAY_BOOT_ON = 1,
      RELAY_SAVE_DELAY = 1000,
      BROKER_SUPPORT = False, MQTT_SUPPORT = False, WEB_SUPPORT = False,
      DOMOTICZ_SUPPORT = False, INFLUXDB_SUPPORT = False, THINGSPEAK_SUPPORT = False,
      LED_SUPPORT = False, lightChannels = 0,
      rlySync = 0, rlyBoot = (\<lambda>i. 2), rlyPulse = (\<lambda>i. 0), rlyTime_ms = (\<lambda>i. 0),
      mqttGroup = (\<lambda>i. []), mqttGroupInv = (\<lambda>i. 0),
      MAX_COMPONENTS = 8, rlyDummy = 0, rlyGPIO = (\<lambda>i. 0x99), rlyType = (\<lambda>i. 0),
      rlyResetGPIO = (\<lambda>i. 0x99), rlyDelayOn = (\<lambda>i. 0), rlyDelayOff = (\<lambda>i. 0),
      rlyTime_configure_ms = (\<lambda>i. 0)\<rparr>"

text \<open>A relay on a GPIO as \<^verbatim>\<open>_relayConfigure\<close> builds it, and a state one second
  after start with a given vector of relays.\<close>

definition example_relay :: relay_t where
  "example_relay = new_relay 12 0 0x99 0 0 0 0"

definition example_state :: "relay_t list \<Rightarrow> state" where
  "example_state rs =
     \<lparr>relays = rs, relayRecursive = False, relaySaveTicker = Detached,
      millis = 1000, eeprom = 0, calls = []\<rparr>"

text \<open>A relay that is off, has a pending change to on with both report flags set, and
  pulses: its normal state is on (mode \<^verbatim>\<open>RELAY_PULSE_ON\<close>), the pulse lasts 500 ms.\<close>

definition pending_pulse_relay :: relay_t where
  "pending_pulse_relay =
     example_relay\<lparr>target_status := True, report := True, group_report := True,
                   pulse := 2, pulse_ms := 500\<rparr>"

text \<open>
  A relay that waits 5 s before it switches on, after it has been asked \<open>n\<close> times to
  switch on within the flood window that started at 0, and the state reached by six
  such requests in a row, one second after start.
\<close>

definition flooded :: "uchar \<Rightarrow> ulong \<Rightarrow> state" where
  "flooded n t =
     example_state
       [example_relay\<lparr>delay_on := 5000, target_status := True, fw_count := n,
                      change_time := t, report := True, group_report := True\<rparr>]"

definition six_requests :: state where
  "six_requests =
     ((\<lambda>s. snd (relayStatus example_config s 0 True True True)) ^^ 6)
       (example_state [example_relay\<lparr>delay_on := 5000\<rparr>])"

text \<open>The status a relay boots into: the \<^verbatim>\<open>switch\<close> of \<^verbatim>\<open>_relayBoot\<close> on the boot mode
  of relay \<open>i\<close>, for the mask \<open>m\<close> and the bit \<open>1 << i\<close> kept in an \<^verbatim>\<open>unsigned char\<close>.\<close>

definition boot_status :: "config \<Rightarrow> nat \<Rightarrow> uchar \<Rightarrow> bool" where
  "boot_status c i m =
     (if rlyBoot c i = RELAY_BOOT_SAME c then (m AND push_bit i 1) = push_bit i 1
      else if rlyBoot c i = RELAY_BOOT_TOGGLE c then (m AND push_bit i 1) \<noteq> push_bit i 1
      else if rlyBoot c i = RELAY_BOOT_ON c then True
      else False)"

text \<open>A relay is due in a pass of \<^verbatim>\<open>_relayProcess\<close> when none of its three
  \<^verbatim>\<open>continue\<close> statements skips it.\<close>

definition due :: "bool \<Rightarrow> ulong \<Rightarrow> relay_t \<Rightarrow> bool" where
  "due mode current_time r \<longleftrightarrow>
     target_status r \<noteq> current_status r \<and> target_status r = mode \<and>
     \<not> current_time < change_time r"

text \<open>Three relays one second after start: the first is on and due to switch off,
  the second is off and due to switch on, the third is to switch on at 5000.\<close>

definition scheduler_example :: state where
  "scheduler_example =
     example_state
       [example_relay\<lparr>current_status := True\<rparr>,
        example_relay\<lparr>target_status := True\<rparr>,
        example_relay\<lparr>target_status := True, change_time := 5000\<rparr>]"

text \<open>The same build with the \<^verbatim>\<open>rlySync\<close> setting at \<^verbatim>\<open>RELAY_SYNC_SAME\<close>.\<close>

definition same_config :: config where
  "same_config = example_config\<lparr>rlySync := 3\<rparr>"

text \<open>Two relays that are off, after \<^verbatim>\<open>relayStatus(0, true)\<close> under that setting and
  before the next tick.\<close>

definition requested_on :: state where
  "requested_on =
     snd (relayStatus same_config (example_state [example_relay, example_relay]) 0 True True True)"

text \<open>Two relays and an EEPROM byte that was never written (an erased byte reads 255);
  the relays after \<^verbatim>\<open>_relayBoot\<close>, and after the tick that follows it in \<^verbatim>\<open>relaySetup\<close>.\<close>

definition erased_eeprom :: state where
  "erased_eeprom = (example_state [example_relay, example_relay])\<lparr>eeprom := 255\<rparr>"

definition booted :: "relay_t list" where
  "booted = [example_relay\<lparr>target_status := True, change_time := 1000\<rparr>,
             example_relay\<lparr>target_status := True, change_time := 1000\<rparr>]"

definition settled :: "relay_t list" where
  "settled = [example_relay\<lparr>current_status := True, target_status := True, change_time := 1000\<rparr>,
              example_relay\<lparr>current_status := True, target_status := True, change_time := 1000\<rparr>]"

text \<open>The transitions the broker is told of, in the order of the calls.\<close>

fun published :: "event list \<Rightarrow> (nat \<times> bool) list" where
  "published [] = []"
| "published (BrokerPublish i b # es) = (i, b) # published es"
| "published (e # es) = published es"

text \<open>The same build with the broker compiled in.\<close>

definition broker_config :: config where
  "broker_config = example_config\<lparr>BROKER_SUPPORT := True\<rparr>"

lemma example_config_simps [simp]:
  "RELAY_PROVIDER example_config = RELAY_PROVIDER_RELAY"
  "RELAY_PULSE_NONE example_config = 0"
  "RELAY_PULSE_ON example_config = 2"
  "RELAY_FLOOD_WINDOW example_config = 3"
  "RELAY_FLOOD_CHANGES example_config = 5"
  "RELAY_SYNC_ANY example_config = 0"
  "RELAY_SYNC_ONE example_config = 2"
  "RELAY_SYNC_SAME example_config = 3"
  "RELAY_BOOT_SAME example_config = 2"
  "RELAY_BOOT_TOGGLE example_config = 3"
  "RELAY_BOOT_ON example_config = 1"
  "RELAY_SAVE_DELAY example_config = 1000"
  "BROKER_SUPPORT example_config = False"
  "MQTT_SUPPORT example_config = False"
  "WEB_SUPPORT example_config = False"
  "DOMOTICZ_SUPPORT example_config = False"
  "INFLUXDB_SUPPORT example_config = False"
  "THINGSPEAK_SUPPORT example_config = False"
  "LED_SUPPORT example_config = False"
  "rlySync example_config = 0"
  "rlyBoot example_config = (\<lambda>i. 2)"
  "rlyPulse example_config = (\<lambda>i. 0)"
  "rlyTime_ms example_config = (\<lambda>i. 0)"
  by (simp_all add: example_config_def)

lemma example_state_simps [simp]:
  "relays (example_state rs) = rs"
  "relayRecursive (example_state rs) = False"
  "relaySaveTicker (example_state rs) = Detached"
  "millis (example_state rs) = 1000"
  "eeprom (example_state rs) = 0"
  "calls (example_state rs) = []"
  "(example_state rs)\<lparr>relays := rs'\<rparr> = example_state rs'"
  by (simp_all add: example_state_def)

section \<open>Payload parsing\<close>

text \<open>Lower-casing only the first six characters decides the four comparisons as
  lower-casing the whole string does: no keyword is longer than six characters.\<close>

lemma lower_first_six:
  assumes "length kw \<le> 6"
  shows "(map tolower (take (if 6 < length p then 6 else length p) p)
            @ drop (if 6 < length p then 6 else length p) p = kw)
         \<longleftrightarrow> map tolower p = kw"
proof (cases "6 < length p")
  case True
  have "length (map tolower (take 6 p) @ drop 6 p) = length p"
    by simp
  with True assms have "map tolower (take 6 p) @ drop 6 p \<noteq> kw"
    by (metis not_less)
  moreover from True assms have "map tolower p \<noteq> kw"
    by (metis length_map not_less)
  ultimately show ?thesis using True by simp
next
  case False
  then show ?thesis by simp
qed

text \<open>Whatever \<^verbatim>\<open>ltrim\<close> returns, the payload it returns is compared as a whole, in
  lower case, with the four keywords.\<close>

lemma relayParsePayload_keywords:
  "relayParsePayload trim payload =
     (if take 1 payload = ''0'' then 0
      else if take 1 payload = ''1'' then 1
      else if take 1 payload = ''2'' then 2
      else if map tolower (trim payload) = ''off'' then 0
      else if map tolower (trim payload) = ''on'' then 1
      else if map tolower (trim payload) = ''toggle'' then 2
      else if map tolower (trim payload) = ''query'' then 3
      else 0xFF)"
proof -
  have kw: "\<And>kw. length kw \<le> 6 \<Longrightarrow>
      (map tolower (take (if 6 < length (trim payload) then 6 else length (trim payload))
                      (trim payload))
         @ drop (if 6 < length (trim payload) then 6 else length (trim payload))
             (trim payload) = kw)
      \<longleftrightarrow> map tolower (trim payload) = kw"
    by (rule lower_first_six)
  show ?thesis
    unfolding relayParsePayload_def Let_def
    by (simp only: kw [of "''off''", simplified] kw [of "''on''", simplified]
        kw [of "''toggle''", simplified] kw [of "''query''", simplified])
qed

text \<open>\<^verbatim>\<open>tolower\<close> maps each upper-case letter to its lower-case letter and changes no
  other character.\<close>

lemma tolower_letters:
  "map tolower ''ABCDEFGHIJKLMNOPQRSTUVWXYZ'' = ''abcdefghijklmnopqrstuvwxyz''"
  by code_simp

lemma upper_case_letters:
  "map char_of [65..<91::nat] = ''ABCDEFGHIJKLMNOPQRSTUVWXYZ''"
  by code_simp

lemma tolower_other:
  "ch \<in> set ''ABCDEFGHIJKLMNOPQRSTUVWXYZ'' \<or> tolower ch = ch"
proof (cases "65 \<le> (of_char ch :: nat) \<and> (of_char ch :: nat) \<le> 90")
  case False
  have "tolower ch = ch"
    unfolding tolower_def using False by (rule if_not_P)
  then show ?thesis ..
next
  case True
  then have "(of_char ch :: nat) \<in> {65..<91}" by auto
  then have "(of_char ch :: nat) \<in> set [65..<91]" by (simp only: set_upt)
  then have "char_of (of_char ch :: nat) \<in> set (map char_of [65..<91::nat])"
    by (simp only: set_map) (rule imageI)
  then have "ch \<in> set ''ABCDEFGHIJKLMNOPQRSTUVWXYZ''"
    by (simp only: upper_case_letters char_of_char)
  then show ?thesis ..
qed

lemma relayParsePayload_examples:
  "relayParsePayload ltrim ''0xyz'' = 0"
  "relayParsePayload ltrim ''TOGGLE'' = 2"
  "relayParsePayload ltrim ''  Query'' = 3"
  "relayParsePayload ltrim ''toggles'' = 0xFF"
  "relayParsePayload ltrim ''on '' = 0xFF"
  "relayParsePayload ltrim '' 1'' = 0xFF"
  "relayParsePayload ltrim [] = 0xFF"
  by code_simp+

text \<open>
  Claim C9, as stated: a payload that does not start with \<open>0\<close>, \<open>1\<close> or \<open>2\<close> is matched
  without regard to case against the four keywords, and every other payload yields
  \<open>0xFF\<close>. The payload made of a space and \<open>on\<close> starts with no digit and is none of
  the four keywords in any case, yet \<^verbatim>\<open>relayParsePayload\<close> returns 1 for it: \<^verbatim>\<open>ltrim\<close>
  has skipped the space before the comparison.
\<close>

theorem relayParsePayload_trim_counterexample:
  "take 1 '' on'' \<noteq> ''0'' \<and> take 1 '' on'' \<noteq> ''1'' \<and> take 1 '' on'' \<noteq> ''2'' \<and>
   map tolower '' on'' \<noteq> ''off'' \<and> map tolower '' on'' \<noteq> ''on'' \<and>
   map tolower '' on'' \<noteq> ''toggle'' \<and> map tolower '' on'' \<noteq> ''query'' \<and>
   relayParsePayload ltrim '' on'' = 1"
  by (simp add: relayParsePayload_def ltrim_def tolower_def)

text \<open>
  Claim C9, amended. A payload whose first character is \<open>0\<close>, \<open>1\<close> or \<open>2\<close> yields 0, 1 or 2
  whatever follows. Every other payload is stripped of its leading spaces and then
  compared without regard to case with \<open>off\<close>, \<open>on\<close>, \<open>toggle\<close> and \<open>query\<close>, which
  yield 0, 1, 2 and 3 (the code puts only the first six characters in lower case, which
  decides the same matches, no keyword being longer); a payload that matches none yields
  \<open>0xFF\<close>. Without regard to case: the comparison is made after \<^verbatim>\<open>tolower\<close>, which maps
  \<open>A\<close> to \<open>Z\<close> to \<open>a\<close> to \<open>z\<close> and leaves every other character as it is.
\<close>

theorem relayParsePayload_first_character:
  "relayParsePayload ltrim (CHR ''0'' # rest) = 0 \<and>
   relayParsePayload ltrim (CHR ''1'' # rest) = 1 \<and>
   relayParsePayload ltrim (CHR ''2'' # rest) = 2 \<and>
   relayParsePayload ltrim payload =
     (let p = map tolower (dropWhile (\<lambda>ch. ch = CHR '' '') payload)
      in if take 1 payload = ''0'' then 0
         else if take 1 payload = ''1'' then 1
         else if take 1 payload = ''2'' then 2
         else if p = ''off'' then 0
         else if p = ''on'' then 1
         else if p = ''toggle'' then 2
         else if p = ''query'' then 3
         else 0xFF) \<and>
   map tolower ''ABCDEFGHIJKLMNOPQRSTUVWXYZ'' = ''abcdefghijklmnopqrstuvwxyz'' \<and>
   (ch \<in> set ''ABCDEFGHIJKLMNOPQRSTUVWXYZ'' \<or> tolower ch = ch)"
proof -
  have "relayParsePayload ltrim (CHR ''0'' # rest) = 0"
    "relayParsePayload ltrim (CHR ''1'' # rest) = 1"
    "relayParsePayload ltrim (CHR ''2'' # rest) = 2"
    by (simp_all add: relayParsePayload_def)
  then show ?thesis
    using relayParsePayload_keywords [of ltrim payload] tolower_letters tolower_other [of ch]
    by (simp only: ltrim_def Let_def simp_thms)
qed

section \<open>Relay identifiers outside the vector\<close>

text \<open>The setter, the getter and \<^verbatim>\<open>relayToggle\<close> compare the identifier with the size of
  the vector first and change nothing when it is too large.\<close>

lemma invalid_index_rejected:
  assumes "length (relays s) \<le> rid"
  shows "relayStatus c s rid status rp gr = (False, s)"
    and "relayStatus_get s rid = False"
    and "relayToggle c s rid rp gr = s"
  using assms by (simp_all add: relayStatus.simps relayStatus_get_def relayToggle_def)

text \<open>
  Claim C4. Every public entry point that takes a relay identifier leaves the state as it
  is when the identifier is not below \<^verbatim>\<open>relayCount()\<close>. With two relays and identifier 5
  the setter, the getter and \<^verbatim>\<open>relayToggle\<close> do so, but \<^verbatim>\<open>relayPulse\<close> reads
  \<^verbatim>\<open>_relays[5]\<close> with no check and has no defined result.
\<close>

theorem relayPulse_invalid_index:
  "relayPulse example_config (example_state [example_relay, example_relay]) 5 = None \<and>
   relayStatus example_config (example_state [example_relay, example_relay]) 5 True True True
     = (False, example_state [example_relay, example_relay]) \<and>
   relayStatus_get (example_state [example_relay, example_relay]) 5 = False \<and>
   relayToggle example_config (example_state [example_relay, example_relay]) 5 True True
     = example_state [example_relay, example_relay]"
  by (simp add: relayPulse_def relayStatus.simps relayStatus_get_def relayToggle_def
      example_state_def)

section \<open>Reconfiguration and the pulse tickers\<close>

lemma relayClear_loop_unchanged: "relayClear_loop s i = s"
proof (induction s i rule: relayClear_loop.induct)
  case (1 s i)
  then show ?case
    by (subst relayClear_loop.simps) (simp add: Let_def)
qed

lemma relayConfigure_clears_first:
  "relayConfigure c s =
     (if 0 < rlyDummy c then configure_dummy c (s\<lparr>relays := []\<rparr>) 0
      else configure_gpio c (s\<lparr>relays := []\<rparr>) 0)"
  by (simp add: relayConfigure_def relayClear_def relayClear_loop_unchanged)

text \<open>
  Claim C7. Before \<^verbatim>\<open>_relayConfigure\<close> clears the vector, the pulse ticker of every
  record in it is detached: the record's own ticker, not that of a copy. The loop of
  \<^verbatim>\<open>_relayClear\<close> detaches the ticker of the local copy \<open>element\<close>: with one relay whose
  ticker is armed for 5000 ms, the vector after the loop is the vector before it, and the
  ticker of the record in it is still the armed one when \<^verbatim>\<open>_relays.clear()\<close> runs.
\<close>

theorem relayClear_detaches_copy:
  "relayClear_loop
     (example_state [example_relay\<lparr>pulseTicker := Once_ms 5000 (RelayToggle 0)\<rparr>]) 0
   = example_state [example_relay\<lparr>pulseTicker := Once_ms 5000 (RelayToggle 0)\<rparr>] \<and>
   pulseTicker (relays (relayClear_loop
     (example_state [example_relay\<lparr>pulseTicker := Once_ms 5000 (RelayToggle 0)\<rparr>]) 0) ! 0)
   = Once_ms 5000 (RelayToggle 0)"
  by (simp add: relayClear_loop_unchanged example_state_def)

section \<open>Reloading the pulse\<close>

text \<open>
  Claim C8, as stated: \<^verbatim>\<open>relayPulse(id)\<close> with pulse mode \<^verbatim>\<open>RELAY_PULSE_NONE\<close> or a
  pulse of 0 ms leaves the relay and its pulse timer unchanged. The first statement of
  \<^verbatim>\<open>relayPulse\<close> detaches the ticker, before the mode is read: a relay without pulse
  mode whose ticker is armed loses the timer.
\<close>

theorem relayPulse_none_counterexample:
  "pulse (relays (example_state
       [example_relay\<lparr>pulseTicker := Once_ms 5000 (RelayToggle 0)\<rparr>]) ! 0)
     = RELAY_PULSE_NONE example_config \<and>
   relayPulse example_config
     (example_state [example_relay\<lparr>pulseTicker := Once_ms 5000 (RelayToggle 0)\<rparr>]) 0
     = Some (example_state [example_relay]) \<and>
   example_state [example_relay]
     \<noteq> example_state [example_relay\<lparr>pulseTicker := Once_ms 5000 (RelayToggle 0)\<rparr>]"
  by (simp add: relayPulse_def relayPulse_at_def set_relay_def detach_def Let_def
      example_state_def example_relay_def example_config_def new_relay_def)

text \<open>
  Claim C8, amended. For a relay identifier below \<^verbatim>\<open>relayCount()\<close>, \<^verbatim>\<open>relayPulse(id)\<close>
  with pulse mode \<^verbatim>\<open>RELAY_PULSE_NONE\<close> or a pulse of 0 ms detaches the pulse ticker of
  that relay and changes nothing else: no other field of the record, no other relay, no
  other part of the state. When the ticker was detached already, the state is unchanged.
\<close>

theorem relayPulse_none_only_detaches:
  assumes "rid < length (relays s)"
    and "pulse (relays s ! rid) = RELAY_PULSE_NONE c \<or> pulse_ms (relays s ! rid) = 0"
  shows "relayPulse c s rid =
           Some (s\<lparr>relays := (relays s)[rid := (relays s ! rid)\<lparr>pulseTicker := Detached\<rparr>]\<rparr>) \<and>
         (pulseTicker (relays s ! rid) = Detached \<longrightarrow> relayPulse c s rid = Some s)"
proof -
  have a: "relayPulse c s rid =
           Some (s\<lparr>relays := (relays s)[rid := (relays s ! rid)\<lparr>pulseTicker := Detached\<rparr>]\<rparr>)"
    using assms
    by (auto simp add: relayPulse_def relayPulse_at_def set_relay_def detach_def Let_def)
  have "relayPulse c s rid = Some s" if d: "pulseTicker (relays s ! rid) = Detached"
  proof -
    have "(relays s ! rid)\<lparr>pulseTicker := Detached\<rparr> = relays s ! rid"
      using d by (metis relay_t.surjective relay_t.update_convs(15))
    then show ?thesis
      using a by simp
  qed
  with a show ?thesis by blast
qed

theorem relayPulse_none_only_detaches_witness:
  "0 < length (relays (example_state [example_relay])) \<and>
   pulse (relays (example_state [example_relay]) ! 0) = RELAY_PULSE_NONE example_config \<and>
   pulseTicker (relays (example_state [example_relay]) ! 0) = Detached \<and>
   relayPulse example_config (example_state [example_relay]) 0
     = Some (example_state [example_relay])"
proof -
  have l: "0 < length (relays (example_state [example_relay]))"
    by (simp add: example_state_def)
  have p: "pulse (relays (example_state [example_relay]) ! 0) = RELAY_PULSE_NONE example_config
           \<or> pulse_ms (relays (example_state [example_relay]) ! 0) = 0"
    by (simp add: example_state_def example_relay_def example_config_def new_relay_def)
  have d: "pulseTicker (relays (example_state [example_relay]) ! 0) = Detached"
    by (simp add: example_state_def example_relay_def new_relay_def)
  have n: "pulse (relays (example_state [example_relay]) ! 0) = RELAY_PULSE_NONE example_config"
    by (simp add: example_state_def example_relay_def example_config_def new_relay_def)
  from relayPulse_none_only_detaches [OF l p] d n l show ?thesis
    by blast
qed

section \<open>The flood window\<close>

text \<open>
  Inside the window and at or above the threshold, the change is scheduled at the later
  of the end of the window and the delayed time, as long as the delay is not larger than
  the end of the window and the delayed time does not pass \<open>2 ^ 32\<close>.
\<close>

lemma flood_window_pushes_to_window_end:
  fixes now :: ulong
  defines "fw_end \<equiv> \<lambda>c r. fw_start r + 1000 * RELAY_FLOOD_WINDOW c"
  assumes "fw_start r \<le> now" and "now < fw_end c r"
    and "RELAY_FLOOD_CHANGES c \<le> uint (fw_count r + 1)"
    and "(if status then delay_on r else delay_off r) \<le> fw_end c r"
    and "unat now + unat (if status then delay_on r else delay_off r) < 2 ^ 32"
  shows "change_time (flood_window c now status r)
           = max (fw_end c r) (now + (if status then delay_on r else delay_off r))"
proof -
  let ?d = "if status then delay_on r else delay_off r"
  have sub: "unat (fw_end c r - ?d) = unat (fw_end c r) - unat ?d"
    using assms(5) by (simp add: unat_sub)
  have add: "unat (now + ?d) = unat now + unat ?d"
    using assms(6) by (simp add: unat_add_lem [THEN iffD1])
  have le: "unat ?d \<le> unat (fw_end c r)"
    using assms(5) by (simp add: word_le_nat_alt)
  have iff: "now < fw_end c r - ?d \<longleftrightarrow> now + ?d < fw_end c r"
    unfolding word_less_nat_alt sub add using le by linarith
  have "change_time (flood_window c now status r)
          = (if now < fw_end c r - ?d then fw_end c r else now + ?d)"
    using assms(2,3,4) unfolding flood_window_def fw_end_def Let_def
    by (auto simp add: not_less not_le)
  then show ?thesis
    using iff by (auto simp add: max_def not_less)
qed

text \<open>The specification's scenario: no delay, six requests within the window that
  started at 0; the fifth and the sixth are scheduled at 3000.\<close>

lemma flood_window_scenario:
  "change_time (flood_window example_config 1000 True (example_relay\<lparr>fw_count := 4\<rparr>)) = 3000"
  "change_time (flood_window example_config 1000 True (example_relay\<lparr>fw_count := 5\<rparr>)) = 3000"
  "change_time (flood_window example_config 1000 True (example_relay\<lparr>fw_count := 3\<rparr>)) = 1000"
  by (simp_all add: flood_window_def Let_def example_relay_def new_relay_def)

lemma six_requests_steps:
  "snd (relayStatus example_config (example_state [example_relay\<lparr>delay_on := 5000\<rparr>])
          0 True True True) = flooded 1 6000"
  "snd (relayStatus example_config (flooded 1 6000) 0 True True True) = flooded 2 6000"
  "snd (relayStatus example_config (flooded 2 6000) 0 True True True) = flooded 3 6000"
  "snd (relayStatus example_config (flooded 3 6000) 0 True True True) = flooded 4 6000"
  "snd (relayStatus example_config (flooded 4 6000) 0 True True True) = flooded 5 3000"
  "snd (relayStatus example_config (flooded 5 3000) 0 True True True) = flooded 6 3000"
  by (simp_all add: relayStatus.simps relaySync.simps flood_window_def set_relay_def Let_def
      flooded_def example_relay_def new_relay_def)

text \<open>
  Claim C1. The request after the threshold within one flood window is scheduled at the
  end of the window or later, and where the delay of the direction already puts it at or
  after the end of the window, that later time is kept. One second after start, a relay
  with \<open>delay_on = 5000\<close> is asked six times to switch on: the window that started at 0
  ends at 3000, the delay puts the change at 6000, and \<^verbatim>\<open>fw_end - delay\<close> wraps below
  zero to a large number, so that the sixth request (and the fifth) is scheduled at 3000,
  three seconds before the delay has passed.
\<close>

theorem flood_window_delay_underflow:
  "change_time (relays six_requests ! 0) = 3000 \<and>
   fw_start (relays six_requests ! 0) + 1000 * RELAY_FLOOD_WINDOW example_config = 3000 \<and>
   fw_count (relays six_requests ! 0) = 6 \<and>
   millis six_requests + delay_on (relays six_requests ! 0) = 6000"
proof -
  have eq: "six_requests = flooded 6 3000"
    unfolding six_requests_def by (simp add: eval_nat_numeral six_requests_steps)
  show ?thesis
    unfolding eq by (simp add: flooded_def example_relay_def new_relay_def)
qed

section \<open>Requesting the current status\<close>

text \<open>\<^verbatim>\<open>relayPulse\<close> writes nothing but the ticker and the two pulse settings of the
  relay it is called for.\<close>

lemma relayPulse_at_frame:
  assumes "rid < length (relays s)"
  shows "\<exists>p pm tk. relayPulse_at c s rid =
     s\<lparr>relays := (relays s)[rid := (relays s ! rid)\<lparr>pulseTicker := tk, pulse := p, pulse_ms := pm\<rparr>]\<rparr>"
proof -
  let ?r = "relays s ! rid"
  let ?upd = "\<lambda>p pm tk. s\<lparr>relays := (relays s)[rid := ?r\<lparr>pulseTicker := tk, pulse := p, pulse_ms := pm\<rparr>]\<rparr>"
  have "relayPulse_at c s rid = ?upd (pulse ?r) (pulse_ms ?r) Detached
      \<or> relayPulse_at c s rid =
          ?upd (rlyPulse c rid) (rlyTime_ms c rid) (Once_ms (pulse_ms ?r) (RelayToggle rid))"
    using assms
    by (simp add: relayPulse_at_def Let_def detach_def once_ms_def set_relay_def)
  then show ?thesis by blast
qed

text \<open>What \<^verbatim>\<open>relayPulse\<close> leaves in the relay: the ticker is detached, and armed again
  (with the pulse settings read anew) only for a relay that pulses and is not in its normal
  state.\<close>

lemma relayPulse_at_relay:
  assumes "rid < length (relays s)"
  shows "relayPulse_at c s rid =
     (let r = relays s ! rid;
          rearm = (pulse r \<noteq> RELAY_PULSE_NONE c \<and> pulse_ms r \<noteq> 0 \<and>
                   (pulse r = RELAY_PULSE_ON c) \<noteq> current_status r)
      in s\<lparr>relays := (relays s)[rid :=
            (if rearm
             then r\<lparr>pulseTicker := Once_ms (pulse_ms r) (RelayToggle rid),
                    pulse := rlyPulse c rid, pulse_ms := rlyTime_ms c rid\<rparr>
             else r\<lparr>pulseTicker := Detached\<rparr>)]\<rparr>)"
  using assms
  by (auto simp add: relayPulse_at_def Let_def detach_def once_ms_def set_relay_def
      relayStatus_get_def)

text \<open>
  Claim C6, as stated: a request for the status the relay already has never changes
  \<open>target_status\<close>. A relay that is off and has a pending change to on
  (\<open>target_status\<close> true) is asked to be off: its \<open>target_status\<close> becomes false.
\<close>

theorem relayStatus_cancels_pending_counterexample:
  "current_status (relays (example_state [example_relay\<lparr>target_status := True\<rparr>]) ! 0) = False \<and>
   target_status (relays (example_state [example_relay\<lparr>target_status := True\<rparr>]) ! 0) = True \<and>
   target_status (relays (snd (relayStatus example_config
       (example_state [example_relay\<lparr>target_status := True\<rparr>]) 0 False True True)) ! 0) = False"
  by (simp add: relayStatus.simps relayPulse_at_def set_relay_def detach_def Let_def
      example_relay_def new_relay_def)

text \<open>
  Claim C6, amended. For a relay identifier below \<^verbatim>\<open>relayCount()\<close>, a request for the
  status \<open>s\<close> the relay already has leaves \<open>target_status\<close> equal to \<open>s\<close>. When the relay
  was settled nothing of it changes but its pulse timer, and the call returns false. When a
  change was pending it is cancelled: \<open>target_status\<close> is set back to \<open>s\<close>, both report
  flags are cleared, and the call returns true. In both cases \<open>current_status\<close>,
  \<open>change_time\<close>, the flood window, the pins and the delays are unchanged, and so are every
  other relay and the rest of the state; the relay is settled afterwards, so that a
  scheduler step finds nothing to do for it. The only call that leaves the module is
  \<^verbatim>\<open>rfbStatus\<close> under the RF bridge provider. \<^verbatim>\<open>relayPulse\<close> refreshes the pulse timer:
  the ticker is detached, and if the relay has a pulse mode other than
  \<^verbatim>\<open>RELAY_PULSE_NONE\<close>, a pulse time other than 0 and a normal state other than \<open>s\<close>, it
  is armed once for that pulse time to toggle the relay, and the pulse mode and time of the
  relay are read anew from the settings; otherwise they are unchanged.
\<close>

theorem relayStatus_current_status_request:
  assumes "rid < length (relays s)" and "current_status (relays s ! rid) = status"
  shows "(let (changed, s') = relayStatus c s rid status rp gr;
              r = relays s ! rid; r' = relays s' ! rid;
              rearm = (pulse r \<noteq> RELAY_PULSE_NONE c \<and> pulse_ms r \<noteq> 0 \<and>
                       (pulse r = RELAY_PULSE_ON c) \<noteq> status)
          in changed = (target_status r \<noteq> status) \<and>
             target_status r' = status \<and> current_status r' = status \<and>
             change_time r' = change_time r \<and> fw_start r' = fw_start r \<and>
             fw_count r' = fw_count r \<and>
             report r' = (target_status r = status \<and> report r) \<and>
             group_report r' = (target_status r = status \<and> group_report r) \<and>
             pulseTicker r' =
               (if rearm then Once_ms (pulse_ms r) (RelayToggle rid) else Detached) \<and>
             pulse r' = (if rearm then rlyPulse c rid else pulse r) \<and>
             pulse_ms r' = (if rearm then rlyTime_ms c rid else pulse_ms r) \<and>
             pin r' = pin r \<and> type r' = type r \<and> reset_pin r' = reset_pin r \<and>
             delay_on r' = delay_on r \<and> delay_off r' = delay_off r \<and>
             length (relays s') = length (relays s) \<and>
             (\<forall>j. j \<noteq> rid \<longrightarrow> relays s' ! j = relays s ! j) \<and>
             calls s' = calls s @ (if RELAY_PROVIDER c = RELAY_PROVIDER_RFBRIDGE
                                  then [RfbStatus rid status] else []) \<and>
             relayRecursive s' = relayRecursive s \<and>
             relaySaveTicker s' = relaySaveTicker s \<and>
             millis s' = millis s \<and> eeprom s' = eeprom s \<and>
             (\<forall>mode t. relayProcess_step c mode t s' rid = s'))"
proof -
  let ?r = "relays s ! rid"
  define s1 where "s1 =
    (if target_status ?r \<noteq> status
     then set_relay rid (\<lambda>r. r\<lparr>target_status := status, report := False,
                                  group_report := False\<rparr>) s
     else s)"
  define s2 where "s2 =
    (if RELAY_PROVIDER c = RELAY_PROVIDER_RFBRIDGE then emit [RfbStatus rid status] s1 else s1)"
  have rs: "relayStatus c s rid status rp gr = (target_status ?r \<noteq> status, relayPulse_at c s2 rid)"
    using assms by (simp add: relayStatus.simps Let_def s1_def s2_def)
  have len: "rid < length (relays s2)"
    using assms by (simp add: s1_def s2_def)
  have r2: "relays s2 ! rid = ?r\<lparr>target_status := status,
      report := (if target_status ?r \<noteq> status then False else report ?r),
      group_report := (if target_status ?r \<noteq> status then False else group_report ?r)\<rparr>"
    using assms by (auto simp add: s1_def s2_def set_relay_def emit_def)
  have others: "\<And>j. j \<noteq> rid \<Longrightarrow> relays s2 ! j = relays s ! j"
    by (simp add: s1_def s2_def set_relay_def emit_def)
  have rest: "calls s2 = calls s @ (if RELAY_PROVIDER c = RELAY_PROVIDER_RFBRIDGE
                                  then [RfbStatus rid status] else [])"
    "relayRecursive s2 = relayRecursive s" "relaySaveTicker s2 = relaySaveTicker s"
    "millis s2 = millis s" "eeprom s2 = eeprom s" "length (relays s2) = length (relays s)"
    by (simp_all add: s1_def s2_def set_relay_def emit_def)
  show ?thesis
    unfolding rs relayPulse_at_relay [OF len] using assms len r2 others rest
    by (simp add: relayProcess_step_def Let_def)
qed

theorem relayStatus_current_status_request_witness:
  "0 < length (relays (example_state [pending_pulse_relay])) \<and>
   current_status (relays (example_state [pending_pulse_relay]) ! 0) = False \<and>
   target_status (relays (example_state [pending_pulse_relay]) ! 0) = True \<and>
   fst (relayStatus example_config (example_state [pending_pulse_relay]) 0 False True True) = True \<and>
   target_status (relays (snd (relayStatus example_config (example_state [pending_pulse_relay])
       0 False True True)) ! 0) = False \<and>
   report (relays (snd (relayStatus example_config (example_state [pending_pulse_relay])
       0 False True True)) ! 0) = False \<and>
   group_report (relays (snd (relayStatus example_config (example_state [pending_pulse_relay])
       0 False True True)) ! 0) = False \<and>
   pulseTicker (relays (snd (relayStatus example_config (example_state [pending_pulse_relay])
       0 False True True)) ! 0) = Once_ms 500 (RelayToggle 0) \<and>
   pulse (relays (snd (relayStatus example_config (example_state [pending_pulse_relay])
       0 False True True)) ! 0) = 0 \<and>
   calls (snd (relayStatus example_config (example_state [pending_pulse_relay])
       0 False True True)) = []"
proof -
  have l: "0 < length (relays (example_state [pending_pulse_relay]))"
    by simp
  have c: "current_status (relays (example_state [pending_pulse_relay]) ! 0) = False"
    by (simp add: pending_pulse_relay_def example_relay_def new_relay_def)
  have t: "target_status (relays (example_state [pending_pulse_relay]) ! 0) = True"
    "pulse (relays (example_state [pending_pulse_relay]) ! 0) = 2"
    "pulse_ms (relays (example_state [pending_pulse_relay]) ! 0) = 500"
    by (simp_all add: pending_pulse_relay_def example_relay_def new_relay_def)
  show ?thesis
    using relayStatus_current_status_request [OF l c, of example_config True True] l c t
    by (simp add: split_beta Let_def)
qed

section \<open>The persisted mask\<close>

text \<open>Once the bit is zero the loop of \<^verbatim>\<open>relaySave\<close> adds nothing.\<close>

lemma relaySave_loop_zero: "bit' = 0 \<Longrightarrow> relaySave_loop s i bit' m = m"
proof (induction s i bit' m rule: relaySave_loop.induct)
  case (1 s i bit' mask')
  then show ?case
    by (subst relaySave_loop.simps) simp
qed

lemma relaySave_loop_step:
  "i < length (relays s) \<Longrightarrow>
     relaySave_loop s i (2 ^ i) m
       = relaySave_loop s (Suc i) (2 ^ Suc i) (if relayStatus_get s i then m + 2 ^ i else m)"
  by (subst relaySave_loop.simps) simp

lemma relaySave_loop_done:
  "length (relays s) \<le> i \<Longrightarrow> relaySave_loop s i b m = m"
  by (subst relaySave_loop.simps) simp

lemma relaySave_loop_take:
  "i \<le> 8 \<Longrightarrow>
     relaySave_loop s i (2 ^ i) m
       = relaySave_loop (s\<lparr>relays := take 8 (relays s)\<rparr>) i (2 ^ i) m"
proof (induction "8 - i" arbitrary: i m)
  case 0
  then have "i = 8" by simp
  then have z: "(2 ^ i :: uchar) = 0" by simp
  show ?case
    unfolding z by (simp add: relaySave_loop_zero)
next
  case (Suc n)
  then have i: "i < 8" by simp
  have ih: "\<And>m. relaySave_loop s (Suc i) (2 ^ Suc i) m
       = relaySave_loop (s\<lparr>relays := take 8 (relays s)\<rparr>) (Suc i) (2 ^ Suc i) m"
    by (rule Suc.hyps(1)) (use Suc.hyps(2) i in simp_all)
  show ?case
  proof (cases "i < length (relays s)")
    case True
    then have l8: "i < length (relays (s\<lparr>relays := take 8 (relays s)\<rparr>))"
      using i by simp
    have st: "relayStatus_get (s\<lparr>relays := take 8 (relays s)\<rparr>) i = relayStatus_get s i"
      using True i by (auto simp add: relayStatus_get_def)
    show ?thesis
      unfolding relaySave_loop_step [OF True] relaySave_loop_step [OF l8] st
      by (rule ih)
  next
    case False
    then show ?thesis
      by (simp add: relaySave_loop_done)
  qed
qed

lemma relaySave_first_eight:
  "eeprom (relaySave s) = eeprom (relaySave (s\<lparr>relays := take 8 (relays s)\<rparr>))"
  using relaySave_loop_take [of 0 s 0] by (simp add: relaySave_def emit_def)

text \<open>Bit \<open>k\<close> of the saved byte is the status of relay \<open>k\<close>, for \<open>k\<close> below 8 and
  below the number of relays.\<close>

lemma relaySave_loop_bits:
  "i \<le> length (relays s) \<Longrightarrow> (\<And>k. i \<le> k \<Longrightarrow> \<not> bit m k) \<Longrightarrow>
     bit (relaySave_loop s i (2 ^ i) m) k
       \<longleftrightarrow> (if k < i then bit m k else k < length (relays s) \<and> k < 8 \<and> relayStatus_get s k)"
proof (induction "length (relays s) - i" arbitrary: i m)
  case 0
  then show ?case
    by (simp add: relaySave_loop_done)
next
  case (Suc n)
  then have i: "i < length (relays s)" by simp
  let ?m = "if relayStatus_get s i then m + 2 ^ i else m"
  have disj: "m AND 2 ^ i = 0"
    by (rule bit_eqI) (use Suc.prems(2) in \<open>auto simp add: bit_simps\<close>)
  have m': "?m = (if relayStatus_get s i then m OR 2 ^ i else m)"
    by (simp add: disjunctive_add_eq_or [OF disj])
  have bits: "\<And>k. bit ?m k \<longleftrightarrow> bit m k \<or> (k = i \<and> i < 8 \<and> relayStatus_get s i)"
    unfolding m' by (auto simp add: bit_simps)
  have ih: "bit (relaySave_loop s (Suc i) (2 ^ Suc i) ?m) k
       \<longleftrightarrow> (if k < Suc i then bit ?m k
            else k < length (relays s) \<and> k < 8 \<and> relayStatus_get s k)"
  proof (rule Suc.hyps(1))
    show "n = length (relays s) - Suc i" using Suc.hyps(2) by simp
    show "Suc i \<le> length (relays s)" using i by simp
    show "\<And>k. Suc i \<le> k \<Longrightarrow> \<not> bit ?m k"
      using Suc.prems(2) bits by simp
  qed
  show ?case
    unfolding relaySave_loop_step [OF i] ih bits using Suc.prems(2) i
    by (auto simp add: less_Suc_eq)
qed

lemma relaySave_bits:
  "bit (eeprom (relaySave s)) k \<longleftrightarrow> k < length (relays s) \<and> k < 8 \<and> relayStatus_get s k"
  using relaySave_loop_bits [of 0 s 0 k] by (simp add: relaySave_def emit_def)

text \<open>The loop of \<^verbatim>\<open>_relayBoot\<close>: relay \<open>j\<close> gets the status of its boot mode for
  the mask read from the EEPROM; the bits that \<^verbatim>\<open>RELAY_BOOT_TOGGLE\<close> flips are those of
  relays already visited.\<close>

lemma relayBoot_loop_done:
  "length (relays s) \<le> i \<Longrightarrow> relayBoot_loop c s i b m t = (s, m, t)"
  by (subst relayBoot_loop.simps) simp

lemma relayBoot_loop_length:
  "length (relays (fst (relayBoot_loop c s i b m t))) = length (relays s)"
proof (induction "length (relays s) - i" arbitrary: s i b m t)
  case 0
  then show ?case by (simp add: relayBoot_loop_done)
next
  case (Suc n)
  then have i: "i < length (relays s)" by simp
  show ?case
    using i Suc.hyps(2)
    by (subst relayBoot_loop.simps) (simp add: Let_def split_def Suc.hyps(1))
qed

lemma relayBoot_loop_below:
  "j < i \<Longrightarrow> relays (fst (relayBoot_loop c s i b m t)) ! j = relays s ! j"
proof (induction "length (relays s) - i" arbitrary: s i b m t)
  case 0
  then show ?case by (simp add: relayBoot_loop_done)
next
  case (Suc n)
  then have i: "i < length (relays s)" by simp
  show ?case
    using i Suc.hyps(2) Suc.prems
    by (subst relayBoot_loop.simps) (simp add: Let_def split_def Suc.hyps(1) set_relay_def)
qed

lemma xor_other_bit:
  "i \<noteq> j \<Longrightarrow> (m XOR 2 ^ i) AND 2 ^ j = m AND (2 ^ j :: uchar)"
  by (rule bit_eqI) (auto simp add: bit_simps)

lemma boot_status_xor:
  "i \<noteq> j \<Longrightarrow> boot_status c j (m XOR 2 ^ i) = boot_status c j m"
  by (simp add: boot_status_def xor_other_bit)

lemma relayBoot_loop_step:
  assumes "i < length (relays s)"
  shows "\<exists>s' m' t'.
     relayBoot_loop c s i (2 ^ i) m t = relayBoot_loop c s' (Suc i) (2 ^ Suc i) m' t' \<and>
     length (relays s') = length (relays s) \<and>
     (\<forall>j. j \<noteq> i \<longrightarrow> relays s' ! j = relays s ! j) \<and>
     target_status (relays s' ! i) = boot_status c i m \<and>
     current_status (relays s' ! i) = (\<not> boot_status c i m) \<and>
     (m' = m \<or> m' = m XOR 2 ^ i) \<and>
     eeprom s' = eeprom s \<and>
     (rlyBoot c i = RELAY_BOOT_SAME c \<longrightarrow> m' = m \<and> t' = t)"
proof -
  define st where "st = boot_status c i m"
  define s' where "s' =
    set_relay i (\<lambda>r. r\<lparr>change_time :=
        (if RELAY_PROVIDER c = RELAY_PROVIDER_STM
         then millis s + 3000 + 1000 * of_nat i else millis s)\<rparr>)
      (set_relay i (\<lambda>r. r\<lparr>target_status := st\<rparr>)
        (set_relay i (\<lambda>r. r\<lparr>current_status := \<not> st\<rparr>) s))"
  define m' where "m' =
    (if rlyBoot c i \<noteq> RELAY_BOOT_SAME c \<and> rlyBoot c i = RELAY_BOOT_TOGGLE c
     then m XOR 2 ^ i else m)"
  define t' where "t' =
    (if rlyBoot c i \<noteq> RELAY_BOOT_SAME c \<and> rlyBoot c i = RELAY_BOOT_TOGGLE c
     then True else t)"
  have "relayBoot_loop c s i (2 ^ i) m t = relayBoot_loop c s' (Suc i) (2 ^ Suc i) m' t'"
    using assms
    by (subst relayBoot_loop.simps)
       (simp add: Let_def split_def s'_def m'_def t'_def st_def boot_status_def set_relay_def
          mult.commute [of _ 2])
  moreover have "length (relays s') = length (relays s)"
    by (simp add: s'_def)
  moreover have "\<forall>j. j \<noteq> i \<longrightarrow> relays s' ! j = relays s ! j"
    by (simp add: s'_def set_relay_def)
  moreover have "target_status (relays s' ! i) = st" "current_status (relays s' ! i) = (\<not> st)"
    using assms by (simp_all add: s'_def set_relay_def)
  moreover have "m' = m \<or> m' = m XOR 2 ^ i"
    by (simp add: m'_def)
  moreover have "eeprom s' = eeprom s"
    by (simp add: s'_def set_relay_def)
  moreover have "rlyBoot c i = RELAY_BOOT_SAME c \<longrightarrow> m' = m \<and> t' = t"
    by (simp add: m'_def t'_def)
  ultimately show ?thesis
    unfolding st_def by blast
qed

lemma relayBoot_loop_status:
  "i \<le> j \<Longrightarrow> j < length (relays s) \<Longrightarrow>
     target_status (relays (fst (relayBoot_loop c s i (2 ^ i) m t)) ! j) = boot_status c j m \<and>
     current_status (relays (fst (relayBoot_loop c s i (2 ^ i) m t)) ! j) = (\<not> boot_status c j m)"
proof (induction "length (relays s) - i" arbitrary: s i m t)
  case 0
  then show ?case by simp
next
  case (Suc n)
  then have i: "i < length (relays s)" by simp
  from relayBoot_loop_step [OF i, of c m t] obtain s' m' t' where
    step: "relayBoot_loop c s i (2 ^ i) m t = relayBoot_loop c s' (Suc i) (2 ^ Suc i) m' t'"
    and len: "length (relays s') = length (relays s)"
    and others: "\<forall>j. j \<noteq> i \<longrightarrow> relays s' ! j = relays s ! j"
    and here: "target_status (relays s' ! i) = boot_status c i m"
      "current_status (relays s' ! i) = (\<not> boot_status c i m)"
    and mask: "m' = m \<or> m' = m XOR 2 ^ i"
    by blast
  show ?case
  proof (cases "j = i")
    case True
    then show ?thesis
      unfolding step using here by (simp add: relayBoot_loop_below)
  next
    case False
    then have j: "Suc i \<le> j" using Suc.prems(1) by simp
    have "boot_status c j m' = boot_status c j m"
      using mask False by (auto simp add: boot_status_xor)
    moreover have "n = length (relays s') - Suc i"
      using Suc.hyps(2) len by simp
    moreover have "j < length (relays s')"
      using Suc.prems(2) len by simp
    ultimately show ?thesis
      unfolding step using Suc.hyps(1) [of s' "Suc i" m' t'] j by simp
  qed
qed

lemma relayBoot_loop_same:
  "(\<And>j. i \<le> j \<Longrightarrow> j < length (relays s) \<Longrightarrow> rlyBoot c j = RELAY_BOOT_SAME c) \<Longrightarrow>
     snd (relayBoot_loop c s i (2 ^ i) m t) = (m, t) \<and>
     eeprom (fst (relayBoot_loop c s i (2 ^ i) m t)) = eeprom s"
proof (induction "length (relays s) - i" arbitrary: s i m t)
  case 0
  then show ?case by (simp add: relayBoot_loop_done)
next
  case (Suc n)
  then have i: "i < length (relays s)" by simp
  from relayBoot_loop_step [OF i, of c m t] obtain s' m' t' where
    step: "relayBoot_loop c s i (2 ^ i) m t = relayBoot_loop c s' (Suc i) (2 ^ Suc i) m' t'"
    and len: "length (relays s') = length (relays s)"
    and ee: "eeprom s' = eeprom s"
    and same: "rlyBoot c i = RELAY_BOOT_SAME c \<longrightarrow> m' = m \<and> t' = t"
    by blast
  have mt: "m' = m" "t' = t"
    using same Suc.prems [of i] i by simp_all
  have "snd (relayBoot_loop c s' (Suc i) (2 ^ Suc i) m' t') = (m', t') \<and>
     eeprom (fst (relayBoot_loop c s' (Suc i) (2 ^ Suc i) m' t')) = eeprom s'"
  proof (rule Suc.hyps(1))
    show "n = length (relays s') - Suc i" using Suc.hyps(2) len by simp
    show "\<And>j. Suc i \<le> j \<Longrightarrow> j < length (relays s') \<Longrightarrow> rlyBoot c j = RELAY_BOOT_SAME c"
      using Suc.prems len by simp
  qed
  then show ?case
    unfolding step using mt ee by simp
qed

lemma relayBoot_same_eeprom:
  assumes "\<forall>i<length (relays s). rlyBoot c i = RELAY_BOOT_SAME c"
  shows "eeprom (relayBoot c s) = eeprom s"
proof -
  have "snd (relayBoot_loop c (s\<lparr>relayRecursive := True\<rparr>) 0 (2 ^ 0) (eeprom s) False)
          = (eeprom s, False) \<and>
        eeprom (fst (relayBoot_loop c (s\<lparr>relayRecursive := True\<rparr>) 0 (2 ^ 0) (eeprom s) False))
          = eeprom (s\<lparr>relayRecursive := True\<rparr>)"
    by (rule relayBoot_loop_same) (use assms in simp)
  then show ?thesis
    by (simp add: relayBoot_def Let_def split_def)
qed

lemma relays_relayBoot:
  "relays (relayBoot c s)
     = relays (fst (relayBoot_loop c (s\<lparr>relayRecursive := True\<rparr>) 0 1 (eeprom s) False))"
  by (simp add: relayBoot_def Let_def split_def emit_def)

lemma relayBoot_status:
  "j < length (relays s) \<Longrightarrow>
     target_status (relays (relayBoot c s) ! j) = boot_status c j (eeprom s) \<and>
     current_status (relays (relayBoot c s) ! j) = (\<not> boot_status c j (eeprom s))"
  using relayBoot_loop_status [of 0 j "s\<lparr>relayRecursive := True\<rparr>" c "eeprom s" False]
  by (simp add: relays_relayBoot)

lemma two_power_high: "8 \<le> i \<Longrightarrow> (2 ^ i :: uchar) = 0"
  by simp

lemma boot_status_high: "8 \<le> i \<Longrightarrow> boot_status c i m = boot_status c i m'"
  by (simp add: boot_status_def two_power_high)

lemma and_bit_eq: "i < 8 \<Longrightarrow> (m AND 2 ^ i = (2 ^ i :: uchar)) \<longleftrightarrow> bit m i"
proof
  assume i: "i < 8" and eq: "m AND 2 ^ i = 2 ^ i"
  have "bit (m AND 2 ^ i) i"
    unfolding eq using i by (simp add: bit_simps)
  then show "bit m i" by (simp add: bit_simps)
next
  assume i: "i < 8" and b: "bit m i"
  show "m AND 2 ^ i = 2 ^ i"
    by (rule bit_eqI) (use b in \<open>auto simp add: bit_simps\<close>)
qed

lemma boot_status_same:
  "rlyBoot c i = RELAY_BOOT_SAME c \<Longrightarrow> boot_status c i m = (bit m i \<or> 8 \<le> i)"
  by (cases "i < 8") (simp_all add: boot_status_def and_bit_eq two_power_high)

text \<open>
  Claim C10. \<^verbatim>\<open>relaySave\<close> builds the mask in an \<^verbatim>\<open>unsigned char\<close> whose bit doubles
  modulo 256: the byte it writes is the byte it would write for the first eight relays
  alone. In \<^verbatim>\<open>_relayBoot\<close> the target of a relay with index 8 or more does not depend on
  the mask, whatever its boot mode, while a relay below 8 with boot mode
  \<^verbatim>\<open>RELAY_BOOT_SAME\<close> gets bit \<open>i\<close> of the mask.
\<close>

theorem persisted_mask_eight_bits:
  "eeprom (relaySave s) = eeprom (relaySave (s\<lparr>relays := take 8 (relays s)\<rparr>)) \<and>
   (\<forall>i m. 8 \<le> i \<and> i < length (relays s) \<longrightarrow>
      target_status (relays (relayBoot c (s\<lparr>eeprom := m\<rparr>)) ! i)
        = target_status (relays (relayBoot c s) ! i)) \<and>
   (\<forall>i. i < 8 \<and> i < length (relays s) \<and> rlyBoot c i = RELAY_BOOT_SAME c \<longrightarrow>
      target_status (relays (relayBoot c s) ! i) = bit (eeprom s) i)"
proof (intro conjI allI impI)
  show "eeprom (relaySave s) = eeprom (relaySave (s\<lparr>relays := take 8 (relays s)\<rparr>))"
    by (rule relaySave_first_eight)
next
  fix i m
  assume "8 \<le> i \<and> i < length (relays s)"
  then show "target_status (relays (relayBoot c (s\<lparr>eeprom := m\<rparr>)) ! i)
        = target_status (relays (relayBoot c s) ! i)"
    using relayBoot_status [of i s c] relayBoot_status [of i "s\<lparr>eeprom := m\<rparr>" c]
      boot_status_high [of i c m "eeprom s"]
    by simp
next
  fix i
  assume "i < 8 \<and> i < length (relays s) \<and> rlyBoot c i = RELAY_BOOT_SAME c"
  then show "target_status (relays (relayBoot c s) ! i) = bit (eeprom s) i"
    using relayBoot_status [of i s c] by (simp add: boot_status_same)
qed

theorem persisted_mask_eight_bits_witness:
  "8 \<le> (8 :: nat) \<and> 8 < length (relays (example_state (replicate 9 example_relay))) \<and>
   target_status (relays (relayBoot example_config
       ((example_state (replicate 9 example_relay))\<lparr>eeprom := 0\<rparr>)) ! 8) = True \<and>
   target_status (relays (relayBoot example_config
       (example_state (replicate 9 example_relay))) ! 8) = True \<and>
   (0 :: nat) < 8 \<and> rlyBoot example_config 0 = RELAY_BOOT_SAME example_config \<and>
   target_status (relays (relayBoot example_config
       (example_state (replicate 9 example_relay))) ! 0) = False"
proof -
  let ?s = "example_state (replicate 9 example_relay)"
  have l: "8 < length (relays ?s)" by simp
  have b: "boot_status example_config 8 0 = True"
    by (simp add: boot_status_def)
  have t: "target_status (relays (relayBoot example_config ?s) ! 8) = True"
    using relayBoot_status [OF l, of example_config] b by simp
  show ?thesis
    using persisted_mask_eight_bits [of ?s example_config] l t
    by (simp add: bit_simps)
qed

section \<open>The scheduler tick\<close>

text \<open>What each step of the scheduler writes.\<close>

lemma set_relay_fields [simp]:
  "relays (set_relay rid f s) = (relays s)[rid := f (relays s ! rid)]"
  "millis (set_relay rid f s) = millis s"
  "eeprom (set_relay rid f s) = eeprom s"
  "calls (set_relay rid f s) = calls s"
  "relaySaveTicker (set_relay rid f s) = relaySaveTicker s"
  by (simp_all add: set_relay_def)

lemma emit_fields [simp]:
  "relays (emit es s) = relays s"
  "millis (emit es s) = millis s"
  "eeprom (emit es s) = eeprom s"
  "calls (emit es s) = calls s @ es"
  "relaySaveTicker (emit es s) = relaySaveTicker s"
  by (simp_all add: emit_def)

lemma relayProviderStatus_fields [simp]:
  "relays (relayProviderStatus c s rid status) =
     (relays s)[rid := (relays s ! rid)\<lparr>current_status := status\<rparr>]"
  "millis (relayProviderStatus c s rid status) = millis s"
  "relayRecursive (relayProviderStatus c s rid status) = relayRecursive s"
  "eeprom (relayProviderStatus c s rid status) = eeprom s"
  by (simp_all add: relayProviderStatus_def Let_def list_update_beyond split: provider.split)

lemma relayMQTT_fields [simp]:
  "rid < length (relays s) \<Longrightarrow> relays (relayMQTT c s rid) =
     (relays s)[rid := (relays s ! rid)\<lparr>report := False, group_report := False\<rparr>]"
  "millis (relayMQTT c s rid) = millis s"
  "relayRecursive (relayMQTT c s rid) = relayRecursive s"
  "eeprom (relayMQTT c s rid) = eeprom s"
proof -
  have id: "\<And>r :: relay_t. \<not> report r \<Longrightarrow> r\<lparr>report := False\<rparr> = r"
    "\<And>r :: relay_t. \<not> group_report r \<Longrightarrow> r\<lparr>group_report := False\<rparr> = r"
    by simp_all
  show "rid < length (relays s) \<Longrightarrow> relays (relayMQTT c s rid) =
     (relays s)[rid := (relays s ! rid)\<lparr>report := False, group_report := False\<rparr>]"
    by (auto simp add: relayMQTT_def Let_def id)
  show "millis (relayMQTT c s rid) = millis s"
    "relayRecursive (relayMQTT c s rid) = relayRecursive s"
    "eeprom (relayMQTT c s rid) = eeprom s"
    by (simp_all add: relayMQTT_def Let_def)
qed

lemma relayInfluxDB_fields [simp]:
  "relays (relayInfluxDB c s rid) = relays s"
  "millis (relayInfluxDB c s rid) = millis s"
  "relayRecursive (relayInfluxDB c s rid) = relayRecursive s"
  "eeprom (relayInfluxDB c s rid) = eeprom s"
  by (simp_all add: relayInfluxDB_def)

lemma relayPulse_at_fields [simp]:
  "millis (relayPulse_at c s rid) = millis s"
  "eeprom (relayPulse_at c s rid) = eeprom s"
  "calls (relayPulse_at c s rid) = calls s"
  "relaySaveTicker (relayPulse_at c s rid) = relaySaveTicker s"
  by (simp_all add: relayPulse_at_def Let_def)

lemma relayPulse_at_relays:
  "\<exists>p pm tk. relays (relayPulse_at c s rid) =
     (relays s)[rid := (relays s ! rid)\<lparr>pulseTicker := tk, pulse := p, pulse_ms := pm\<rparr>]"
proof (cases "rid < length (relays s)")
  case True
  from relayPulse_at_frame [OF True, of c] obtain p pm tk where
    "relayPulse_at c s rid =
       s\<lparr>relays := (relays s)[rid := (relays s ! rid)\<lparr>pulseTicker := tk, pulse := p, pulse_ms := pm\<rparr>]\<rparr>"
    by blast
  then have "relays (relayPulse_at c s rid) =
       (relays s)[rid := (relays s ! rid)\<lparr>pulseTicker := tk, pulse := p, pulse_ms := pm\<rparr>]"
    by simp
  then show ?thesis by blast
next
  case False
  then have "relays (relayPulse_at c s rid) = relays s"
    by (simp add: relayPulse_at_def Let_def list_update_beyond)
  with False show ?thesis by (simp add: list_update_beyond)
qed

lemma relayProcess_step_skip:
  "\<not> due mode t (relays s ! rid) \<Longrightarrow> relayProcess_step c mode t s rid = s"
  by (auto simp add: relayProcess_step_def due_def Let_def)

lemma relayProcess_step_fields [simp]:
  "millis (relayProcess_step c mode t s rid) = millis s"
  "relayRecursive (relayProcess_step c mode t s rid) = relayRecursive s"
  "eeprom (relayProcess_step c mode t s rid) = eeprom s"
  by (simp_all add: relayProcess_step_def Let_def)

lemma relayProcess_step_due:
  assumes "rid < length (relays s)" and "due mode t (relays s ! rid)"
  shows "current_status (relays (relayProcess_step c mode t s rid) ! rid)
           = target_status (relays s ! rid) \<and>
         target_status (relays (relayProcess_step c mode t s rid) ! rid)
           = target_status (relays s ! rid) \<and>
         change_time (relays (relayProcess_step c mode t s rid) ! rid)
           = change_time (relays s ! rid) \<and>
         (\<forall>j. j \<noteq> rid \<longrightarrow> relays (relayProcess_step c mode t s rid) ! j = relays s ! j)"
proof -
  let ?r = "relays s ! rid"
  let ?target = "target_status ?r"
  define s1 where "s1 = relayProviderStatus c s rid ?target"
  define s2 where "s2 = (if BROKER_SUPPORT c then emit [BrokerPublish rid ?target] s1 else s1)"
  define s3 where "s3 = (if MQTT_SUPPORT c then relayMQTT c s2 rid else s2)"
  define s4 where "s4 =
    (if \<not> relayRecursive s3
     then (let p = relayPulse_at c s3 rid;
               q = p\<lparr>relaySaveTicker :=
                      once_ms (RELAY_SAVE_DELAY c) RelaySave (relaySaveTicker p)\<rparr>
           in if WEB_SUPPORT c then emit [WsSend] q else q)
     else s3)"
  define s5 where "s5 = (if DOMOTICZ_SUPPORT c then emit [DomoticzSendRelay rid] s4 else s4)"
  define s6 where "s6 = (if INFLUXDB_SUPPORT c then relayInfluxDB c s5 rid else s5)"
  define s7 where "s7 =
    (if THINGSPEAK_SUPPORT c then emit [TspkEnqueueRelay rid ?target, TspkFlush] s6 else s6)"
  define s8 where "s8 = (if LED_SUPPORT c then emit [LedUpdate True] s7 else s7)"
  have step: "relayProcess_step c mode t s rid =
      set_relay rid (\<lambda>r. r\<lparr>group_report := False\<rparr>)
        (set_relay rid (\<lambda>r. r\<lparr>report := False\<rparr>) s8)"
  proof -
    have c: "(target_status ?r = current_status ?r) = False" "(target_status ?r \<noteq> mode) = False"
      "(t < change_time ?r) = False"
      using assms(2) by (auto simp add: due_def)
    show ?thesis
      by (simp only: relayProcess_step_def Let_def c if_False s1_def s2_def s3_def s4_def
          s5_def s6_def s7_def s8_def)
  qed
  have r2: "relays s2 = (relays s)[rid := ?r\<lparr>current_status := ?target\<rparr>]"
    by (simp add: s1_def s2_def)
  have r3: "\<exists>rp gr. relays s3 =
      (relays s)[rid := ?r\<lparr>current_status := ?target, report := rp, group_report := gr\<rparr>]"
  proof (cases "MQTT_SUPPORT c")
    case True
    then have "relays s3 =
      (relays s)[rid := ?r\<lparr>current_status := ?target, report := False, group_report := False\<rparr>]"
      using assms(1) by (simp add: s3_def r2)
    then show ?thesis by blast
  next
    case False
    then have "relays s3 =
      (relays s)[rid := ?r\<lparr>current_status := ?target, report := report ?r,
                             group_report := group_report ?r\<rparr>]"
      by (simp add: s3_def r2)
    then show ?thesis by blast
  qed
  then obtain rp gr where r3': "relays s3 =
      (relays s)[rid := ?r\<lparr>current_status := ?target, report := rp, group_report := gr\<rparr>]"
    by blast
  have r4: "\<exists>p pm tk. relays s4 =
      (relays s)[rid := ?r\<lparr>current_status := ?target, report := rp, group_report := gr,
                             pulseTicker := tk, pulse := p, pulse_ms := pm\<rparr>]"
  proof (cases "relayRecursive s3")
    case True
    then have "relays s4 = (relays s)[rid := ?r\<lparr>current_status := ?target, report := rp,
        group_report := gr, pulseTicker := pulseTicker ?r, pulse := pulse ?r,
        pulse_ms := pulse_ms ?r\<rparr>]"
      by (simp add: s4_def r3')
    then show ?thesis by blast
  next
    case False
    obtain p pm tk where "relays (relayPulse_at c s3 rid) =
       (relays s3)[rid := (relays s3 ! rid)\<lparr>pulseTicker := tk, pulse := p, pulse_ms := pm\<rparr>]"
      using relayPulse_at_relays by blast
    then have "relays s4 = (relays s)[rid := ?r\<lparr>current_status := ?target, report := rp,
        group_report := gr, pulseTicker := tk, pulse := p, pulse_ms := pm\<rparr>]"
      using False assms(1) by (simp add: s4_def Let_def r3')
    then show ?thesis by blast
  qed
  then obtain p pm tk where r4': "relays s4 =
      (relays s)[rid := ?r\<lparr>current_status := ?target, report := rp, group_report := gr,
                             pulseTicker := tk, pulse := p, pulse_ms := pm\<rparr>]"
    by blast
  have r8: "relays s8 = relays s4"
    by (simp add: s5_def s6_def s7_def s8_def)
  show ?thesis
    unfolding step using assms(1) by (simp add: r8 r4')
qed


lemma relayProcess_step_other:
  assumes "rid < length (relays s)" and "j \<noteq> rid"
  shows "relays (relayProcess_step c mode t s rid) ! j = relays s ! j"
proof (cases "due mode t (relays s ! rid)")
  case True
  from relayProcess_step_due [OF assms(1) True, of c] assms(2) show ?thesis by blast
next
  case False
  then show ?thesis by (simp add: relayProcess_step_skip)
qed

lemma relayProcess_loop_next:
  "i < length (relays s) \<Longrightarrow>
     relayProcess_loop c mode t s i
       = relayProcess_loop c mode t (relayProcess_step c mode t s i) (Suc i)"
  by (subst relayProcess_loop.simps) simp

lemma relayProcess_loop_done:
  "length (relays s) \<le> i \<Longrightarrow> relayProcess_loop c mode t s i = s"
  by (subst relayProcess_loop.simps) simp

lemma relayProcess_loop_fold:
  "relayProcess_loop c mode t s i
     = fold (\<lambda>rid s'. relayProcess_step c mode t s' rid) [i..<length (relays s)] s"
proof (induction "length (relays s) - i" arbitrary: s i)
  case 0
  then show ?case by (simp add: relayProcess_loop_done)
next
  case (Suc n)
  then have i: "i < length (relays s)" by simp
  have "n = length (relays (relayProcess_step c mode t s i)) - Suc i"
    using Suc.hyps(2) by simp
  from Suc.hyps(1) [OF this] show ?case
    using i by (simp add: relayProcess_loop_next upt_conv_Cons)
qed

lemma relayProcess_loop_fields [simp]:
  "length (relays (relayProcess_loop c mode t s i)) = length (relays s)"
  "millis (relayProcess_loop c mode t s i) = millis s"
  "relayRecursive (relayProcess_loop c mode t s i) = relayRecursive s"
  "eeprom (relayProcess_loop c mode t s i) = eeprom s"
proof -
  have "length (relays (relayProcess_loop c mode t s i)) = length (relays s) \<and>
    millis (relayProcess_loop c mode t s i) = millis s \<and>
    relayRecursive (relayProcess_loop c mode t s i) = relayRecursive s \<and>
    eeprom (relayProcess_loop c mode t s i) = eeprom s"
  proof (induction "length (relays s) - i" arbitrary: s i)
    case 0
    then show ?case by (simp add: relayProcess_loop_done)
  next
    case (Suc n)
    then have i: "i < length (relays s)" by simp
    have "n = length (relays (relayProcess_step c mode t s i)) - Suc i"
      using Suc.hyps(2) by simp
    from Suc.hyps(1) [OF this] show ?case
      using i by (simp add: relayProcess_loop_next)
  qed
  then show "length (relays (relayProcess_loop c mode t s i)) = length (relays s)"
    "millis (relayProcess_loop c mode t s i) = millis s"
    "relayRecursive (relayProcess_loop c mode t s i) = relayRecursive s"
    "eeprom (relayProcess_loop c mode t s i) = eeprom s"
    by simp_all
qed

lemma relayProcess_loop_below:
  "j < i \<Longrightarrow> relays (relayProcess_loop c mode t s i) ! j = relays s ! j"
proof (induction "length (relays s) - i" arbitrary: s i)
  case 0
  then show ?case by (simp add: relayProcess_loop_done)
next
  case (Suc n)
  then have i: "i < length (relays s)" by simp
  have "n = length (relays (relayProcess_step c mode t s i)) - Suc i"
    using Suc.hyps(2) by simp
  from Suc.hyps(1) [OF this, of ] Suc.prems show ?case
    using i by (simp add: relayProcess_loop_next relayProcess_step_other)
qed

lemma relayProcess_loop_at:
  "i \<le> j \<Longrightarrow> j < length (relays s) \<Longrightarrow>
     current_status (relays (relayProcess_loop c mode t s i) ! j)
       = (if due mode t (relays s ! j) then target_status (relays s ! j)
          else current_status (relays s ! j)) \<and>
     target_status (relays (relayProcess_loop c mode t s i) ! j) = target_status (relays s ! j) \<and>
     change_time (relays (relayProcess_loop c mode t s i) ! j) = change_time (relays s ! j) \<and>
     (\<not> due mode t (relays s ! j) \<longrightarrow>
        relays (relayProcess_loop c mode t s i) ! j = relays s ! j)"
proof (induction "length (relays s) - i" arbitrary: s i)
  case 0
  then show ?case by simp
next
  case (Suc n)
  then have i: "i < length (relays s)" by simp
  let ?s = "relayProcess_step c mode t s i"
  show ?case
  proof (cases "j = i")
    case True
    have at: "relays (relayProcess_loop c mode t s i) ! j = relays ?s ! j"
      using True i by (simp add: relayProcess_loop_next relayProcess_loop_below)
    show ?thesis
    proof (cases "due mode t (relays s ! j)")
      case d: True
      from relayProcess_step_due [OF i, of mode t c] d True show ?thesis
        unfolding at by simp
    next
      case False
      then show ?thesis
        unfolding at using True by (simp add: relayProcess_step_skip)
    qed
  next
    case False
    then have j: "Suc i \<le> j" using Suc.prems(1) by simp
    have same: "relays ?s ! j = relays s ! j"
      using i False by (simp add: relayProcess_step_other)
    have "n = length (relays ?s) - Suc i"
      using Suc.hyps(2) by simp
    from Suc.hyps(1) [OF this j] Suc.prems(2) show ?thesis
      using i by (simp add: relayProcess_loop_next same)
  qed
qed


lemma published_append [simp]: "published (xs @ ys) = published xs @ published ys"
  by (induction xs rule: published.induct) simp_all

lemma published_provider [simp]:
  "published (light_calls c n rid status) = []"
  "published (gpio_calls c r status) = []"
  by (simp_all add: light_calls_def gpio_calls_def Let_def)

lemma published_relayProviderStatus [simp]:
  "published (calls (relayProviderStatus c s rid status)) = published (calls s)"
  by (simp add: relayProviderStatus_def Let_def split: provider.split)

lemma published_relayMQTT [simp]:
  "published (calls (relayMQTT c s rid)) = published (calls s)"
  by (simp add: relayMQTT_def Let_def)

lemma published_relayInfluxDB [simp]:
  "published (calls (relayInfluxDB c s rid)) = published (calls s)"
  by (simp add: relayInfluxDB_def)

lemma published_relayProcess_step:
  "published (calls (relayProcess_step c mode t s rid))
     = published (calls s)
       @ (if due mode t (relays s ! rid) \<and> BROKER_SUPPORT c then [(rid, mode)] else [])"
proof (cases "due mode t (relays s ! rid)")
  case False
  then show ?thesis by (simp add: relayProcess_step_skip)
next
  case True
  then have c: "(target_status (relays s ! rid) = current_status (relays s ! rid)) = False"
    "(target_status (relays s ! rid) \<noteq> mode) = False"
    "(t < change_time (relays s ! rid)) = False"
    by (auto simp add: due_def)
  have m: "target_status (relays s ! rid) = mode"
    using True by (auto simp add: due_def)
  show ?thesis
    using True
    by (simp only: relayProcess_step_def Let_def c if_False) (simp add: m)
qed


lemma relayProcess_loop_published:
  "published (calls (relayProcess_loop c mode t s i))
     = published (calls s)
       @ (if BROKER_SUPPORT c
          then map (\<lambda>j. (j, mode))
                 (filter (\<lambda>j. due mode t (relays s ! j)) [i..<length (relays s)])
          else [])"
proof (induction "length (relays s) - i" arbitrary: s i)
  case 0
  then show ?case by (simp add: relayProcess_loop_done)
next
  case (Suc n)
  then have i: "i < length (relays s)" by simp
  let ?s = "relayProcess_step c mode t s i"
  have same: "filter (\<lambda>j. due mode t (relays ?s ! j)) [Suc i..<length (relays s)]
      = filter (\<lambda>j. due mode t (relays s ! j)) [Suc i..<length (relays s)]"
    by (rule filter_cong) (use i in \<open>simp_all add: relayProcess_step_other\<close>)
  have "n = length (relays ?s) - Suc i"
    using Suc.hyps(2) by simp
  from Suc.hyps(1) [OF this] show ?case
    using i by (simp add: relayProcess_loop_next published_relayProcess_step same upt_conv_Cons)
qed

lemma due_on_after_off_pass:
  assumes "j < length (relays s)"
  shows "due True (millis s) (relays (relayProcess c s False) ! j)
           = due True (millis s) (relays s ! j)"
proof (cases "due False (millis s) (relays s ! j)")
  case True
  then have "\<not> target_status (relays s ! j)"
    by (auto simp add: due_def)
  moreover have "target_status (relays (relayProcess c s False) ! j) = target_status (relays s ! j)"
    using relayProcess_loop_at [of 0 j s c False "millis s"] assms
    by (simp add: relayProcess_def)
  ultimately show ?thesis by (simp add: due_def)
next
  case False
  then have "relays (relayProcess c s False) ! j = relays s ! j"
    using relayProcess_loop_at [of 0 j s c False "millis s"] assms
    by (simp add: relayProcess_def)
  then show ?thesis by simp
qed

lemma relayLoop_published:
  assumes "BROKER_SUPPORT c"
  shows "published (calls (relayLoop c s))
     = published (calls s)
       @ map (\<lambda>j. (j, False))
           (filter (\<lambda>j. due False (millis s) (relays s ! j)) [0..<length (relays s)])
       @ map (\<lambda>j. (j, True))
           (filter (\<lambda>j. due True (millis s) (relays s ! j)) [0..<length (relays s)])"
proof -
  let ?off = "relayProcess c s False"
  have f: "filter (\<lambda>j. due True (millis s) (relays ?off ! j)) [0..<length (relays s)]
      = filter (\<lambda>j. due True (millis s) (relays s ! j)) [0..<length (relays s)]"
    by (rule filter_cong) (simp_all add: due_on_after_off_pass)
  have m: "millis ?off = millis s" "length (relays ?off) = length (relays s)"
    by (simp_all add: relayProcess_def)
  show ?thesis
    using assms
    by (simp add: relayLoop_def relayProcess_def [of c ?off] m relayProcess_loop_published f)
       (simp add: relayProcess_def relayProcess_loop_published)
qed


lemma due_cases:
  "due False t r \<longleftrightarrow> \<not> target_status r \<and> current_status r \<and> change_time r \<le> t"
  "due True t r \<longleftrightarrow> target_status r \<and> \<not> current_status r \<and> change_time r \<le> t"
  by (auto simp add: due_def not_less)

text \<open>
  Claim C3. A tick is an OFF pass followed by an ON pass over the state the OFF pass
  leaves; a pass visits the relays in increasing index order. After the OFF pass every
  relay that was due to switch off is off and no relay has been switched on. A relay
  whose \<open>change_time\<close> is after the clock is left as it is by each pass and by the
  tick; a relay whose \<open>change_time\<close> has come is settled by the tick, so a relay that
  was skipped is applied by the first tick that finds its time has come. Where the broker
  is compiled in, it is told of the transitions of a tick in this order: the relays
  due to switch off by increasing index, then the relays due to switch on by increasing
  index.
\<close>

theorem scheduler_ordering:
  "relayLoop c s = relayProcess c (relayProcess c s False) True \<and>
   relayProcess c s mode =
     fold (\<lambda>rid s'. relayProcess_step c mode (millis s) s' rid) [0..<length (relays s)] s \<and>
   (\<forall>j<length (relays s).
      (\<not> target_status (relays s ! j) \<and> current_status (relays s ! j) \<and>
       change_time (relays s ! j) \<le> millis s
         \<longrightarrow> \<not> current_status (relays (relayProcess c s False) ! j)) \<and>
      (current_status (relays (relayProcess c s False) ! j)
         \<longrightarrow> current_status (relays s ! j)) \<and>
      (millis s < change_time (relays s ! j)
         \<longrightarrow> relays (relayProcess c s mode) ! j = relays s ! j \<and>
             relays (relayLoop c s) ! j = relays s ! j) \<and>
      (change_time (relays s ! j) \<le> millis s
         \<longrightarrow> current_status (relays (relayLoop c s) ! j) = target_status (relays s ! j) \<and>
             target_status (relays (relayLoop c s) ! j) = target_status (relays s ! j))) \<and>
   (BROKER_SUPPORT c \<longrightarrow>
      published (calls (relayLoop c s)) =
        published (calls s)
        @ map (\<lambda>j. (j, False))
            (filter (\<lambda>j. \<not> target_status (relays s ! j) \<and> current_status (relays s ! j) \<and>
                         change_time (relays s ! j) \<le> millis s) [0..<length (relays s)])
        @ map (\<lambda>j. (j, True))
            (filter (\<lambda>j. target_status (relays s ! j) \<and> \<not> current_status (relays s ! j) \<and>
                         change_time (relays s ! j) \<le> millis s) [0..<length (relays s)]))"
proof (intro conjI allI impI)
  show "relayLoop c s = relayProcess c (relayProcess c s False) True"
    by (simp add: relayLoop_def)
  show "relayProcess c s mode =
     fold (\<lambda>rid s'. relayProcess_step c mode (millis s) s' rid) [0..<length (relays s)] s"
    by (simp add: relayProcess_def relayProcess_loop_fold)
next
  assume "BROKER_SUPPORT c"
  then show "published (calls (relayLoop c s)) =
        published (calls s)
        @ map (\<lambda>j. (j, False))
            (filter (\<lambda>j. \<not> target_status (relays s ! j) \<and> current_status (relays s ! j) \<and>
                         change_time (relays s ! j) \<le> millis s) [0..<length (relays s)])
        @ map (\<lambda>j. (j, True))
            (filter (\<lambda>j. target_status (relays s ! j) \<and> \<not> current_status (relays s ! j) \<and>
                         change_time (relays s ! j) \<le> millis s) [0..<length (relays s)])"
    by (simp add: relayLoop_published due_cases)
next
  fix j
  assume j: "j < length (relays s)"
  let ?off = "relayProcess c s False"
  have off: "current_status (relays ?off ! j)
       = (if due False (millis s) (relays s ! j) then target_status (relays s ! j)
          else current_status (relays s ! j))"
    "target_status (relays ?off ! j) = target_status (relays s ! j)"
    "change_time (relays ?off ! j) = change_time (relays s ! j)"
    "\<not> due False (millis s) (relays s ! j) \<Longrightarrow> relays ?off ! j = relays s ! j"
    using relayProcess_loop_at [of 0 j s c False "millis s"] j
    by (simp_all add: relayProcess_def)
  have j': "j < length (relays ?off)" and m': "millis ?off = millis s"
    using j by (simp_all add: relayProcess_def)
  have on: "current_status (relays (relayLoop c s) ! j)
       = (if due True (millis s) (relays ?off ! j) then target_status (relays ?off ! j)
          else current_status (relays ?off ! j))"
    "target_status (relays (relayLoop c s) ! j) = target_status (relays ?off ! j)"
    "\<not> due True (millis s) (relays ?off ! j) \<Longrightarrow> relays (relayLoop c s) ! j = relays ?off ! j"
    using relayProcess_loop_at [of 0 j ?off c True "millis ?off"] j'
    by (simp_all add: relayLoop_def relayProcess_def [of c ?off] m')
  {
    assume "\<not> target_status (relays s ! j) \<and> current_status (relays s ! j) \<and>
       change_time (relays s ! j) \<le> millis s"
    then show "\<not> current_status (relays ?off ! j)"
      by (simp add: off(1) due_def not_less)
  }
  {
    assume "current_status (relays ?off ! j)"
    then show "current_status (relays s ! j)"
      by (auto simp add: off(1) due_def split: if_splits)
  }
  {
    assume late: "millis s < change_time (relays s ! j)"
    then have nd: "\<not> due mode (millis s) (relays s ! j)" "\<not> due False (millis s) (relays s ! j)"
      by (simp_all add: due_def)
    show "relays (relayProcess c s mode) ! j = relays s ! j"
      using relayProcess_loop_at [of 0 j s c mode "millis s"] j nd(1)
      by (simp add: relayProcess_def)
    have same: "relays ?off ! j = relays s ! j"
      using nd(2) by (rule off(4))
    have "\<not> due True (millis s) (relays ?off ! j)"
      using late by (simp add: same due_def)
    then show "relays (relayLoop c s) ! j = relays s ! j"
      using on(3) same by simp
  }
  {
    assume now: "change_time (relays s ! j) \<le> millis s"
    show "current_status (relays (relayLoop c s) ! j) = target_status (relays s ! j)"
      using now by (auto simp add: on(1) off due_def not_less)
    show "target_status (relays (relayLoop c s) ! j) = target_status (relays s ! j)"
      by (simp add: on(2) off(2))
  }
qed



theorem scheduler_ordering_witness:
  "2 < length (relays scheduler_example) \<and>
   \<not> target_status (relays scheduler_example ! 0) \<and>
   current_status (relays scheduler_example ! 0) \<and>
   change_time (relays scheduler_example ! 0) \<le> millis scheduler_example \<and>
   \<not> current_status (relays (relayProcess broker_config scheduler_example False) ! 0) \<and>
   \<not> current_status (relays (relayProcess broker_config scheduler_example False) ! 1) \<and>
   millis scheduler_example < change_time (relays scheduler_example ! 2) \<and>
   relays (relayLoop broker_config scheduler_example) ! 2 = relays scheduler_example ! 2 \<and>
   change_time (relays scheduler_example ! 1) \<le> millis scheduler_example \<and>
   current_status (relays (relayLoop broker_config scheduler_example) ! 1) \<and>
   BROKER_SUPPORT broker_config \<and>
   published (calls (relayLoop broker_config scheduler_example)) = [(0, False), (1, True)]"
proof -
  note A = scheduler_ordering [of broker_config scheduler_example False]
  note T = A [THEN conjunct2, THEN conjunct2, THEN conjunct1, rule_format]
  note P = A [THEN conjunct2, THEN conjunct2, THEN conjunct2, rule_format]
  have l: "0 < length (relays scheduler_example)" "1 < length (relays scheduler_example)"
    "2 < length (relays scheduler_example)"
    by (simp_all add: scheduler_example_def)
  have r0: "\<not> target_status (relays scheduler_example ! 0)"
    "current_status (relays scheduler_example ! 0)"
    "change_time (relays scheduler_example ! 0) \<le> millis scheduler_example"
    by (simp_all add: scheduler_example_def example_relay_def new_relay_def)
  have r1: "\<not> current_status (relays scheduler_example ! 1)"
    "target_status (relays scheduler_example ! 1)"
    "change_time (relays scheduler_example ! 1) \<le> millis scheduler_example"
    by (simp_all add: scheduler_example_def example_relay_def new_relay_def)
  have r2: "millis scheduler_example < change_time (relays scheduler_example ! 2)"
    "target_status (relays scheduler_example ! 2)"
    by (simp_all add: scheduler_example_def example_relay_def new_relay_def)
  have b: "BROKER_SUPPORT broker_config"
    by (simp add: broker_config_def)
  have n: "[0..<length (relays scheduler_example)] = [0, 1, 2]"
    by (simp add: scheduler_example_def upt_rec)
  have e: "calls scheduler_example = []"
    by (simp add: scheduler_example_def)
  have p: "published (calls (relayLoop broker_config scheduler_example)) = [(0, False), (1, True)]"
    using P [OF b] r0 r1 r2 by (simp add: n e not_le)
  from T [OF l(1)] T [OF l(2)] T [OF l(3)] l r0 r1 r2 b p show ?thesis
    by blast
qed

section \<open>Synchronisation\<close>

text \<open>The three functions keep the number of relays and the flag.\<close>

lemma relayStatus_frame:
  "length (relays (snd (relayStatus c s rid status rp gr))) = length (relays s) \<and>
     relayRecursive (snd (relayStatus c s rid status rp gr)) = relayRecursive s"
  "length (relays (relaySync c s rid)) = length (relays s) \<and>
     relayRecursive (relaySync c s rid) = relayRecursive s"
  "length (relays (relaySync_others c s rid status i)) = length (relays s) \<and>
     relayRecursive (relaySync_others c s rid status i) = relayRecursive s"
proof (induct c s rid status rp gr and c s rid and c s rid status i
    rule: relayStatus_relaySync_relaySync_others.induct)
  case (1 c s rid status rp gr)
  show ?case
  proof (cases "length (relays s) \<le> rid \<or> current_status (relays s ! rid) = status")
    case True
    then show ?thesis
      by (auto simp add: relayStatus.simps Let_def)
  next
    case False
    then have a: "\<not> length (relays s) \<le> rid" "current_status (relays s ! rid) \<noteq> status"
      by auto
    note ih = 1 [OF a refl refl refl refl refl]
    show ?thesis
      using a ih by (simp add: relayStatus.simps Let_def)
  qed
next
  case (2 c s rid)
  then show ?case
    by (simp add: relaySync.simps Let_def)
next
  case (3 c s rid status i)
  then show ?case
    by (simp add: relaySync_others.simps)
qed

lemma relaySync_reentered:
  "relayRecursive s \<Longrightarrow> relaySync c s rid = s"
  by (simp add: relaySync.simps)

text \<open>With the flag set, \<^verbatim>\<open>relayStatus\<close> sets the target of its relay and touches no
  other relay; the loop over the other relays sets the target of each.\<close>

lemma relayStatus_flagged:
  assumes "relayRecursive s" and "rid < length (relays s)"
  shows "target_status (relays (snd (relayStatus c s rid st rp gr)) ! rid) = st \<and>
         (\<forall>j. j \<noteq> rid \<longrightarrow> relays (snd (relayStatus c s rid st rp gr)) ! j = relays s ! j)"
proof (cases "current_status (relays s ! rid) = st")
  case True
  let ?r = "relays s ! rid"
  define s1 where "s1 =
    (if target_status ?r \<noteq> st
     then set_relay rid (\<lambda>r. r\<lparr>target_status := st, report := False,
                                  group_report := False\<rparr>) s
     else s)"
  define s2 where "s2 =
    (if RELAY_PROVIDER c = RELAY_PROVIDER_RFBRIDGE then emit [RfbStatus rid st] s1 else s1)"
  have rs: "snd (relayStatus c s rid st rp gr) = relayPulse_at c s2 rid"
    using assms(2) True by (simp add: relayStatus.simps Let_def s1_def s2_def)
  have t2: "target_status (relays s2 ! rid) = st"
    and o2: "\<And>j. j \<noteq> rid \<Longrightarrow> relays s2 ! j = relays s ! j"
    and l2: "rid < length (relays s2)"
    using assms(2) by (auto simp add: s1_def s2_def)
  obtain p pm tk where "relays (relayPulse_at c s2 rid) =
       (relays s2)[rid := (relays s2 ! rid)\<lparr>pulseTicker := tk, pulse := p, pulse_ms := pm\<rparr>]"
    using relayPulse_at_relays by blast
  then show ?thesis
    unfolding rs using t2 o2 l2 by simp
next
  case False
  then show ?thesis
    using assms
    by (simp add: relayStatus.simps Let_def relaySync_reentered)
qed

lemma relaySync_others_flagged:
  "relayRecursive s \<Longrightarrow> j < length (relays s) \<Longrightarrow>
     target_status (relays (relaySync_others c s rid st i) ! j)
       = (if i \<le> j \<and> j \<noteq> rid then st else target_status (relays s ! j))"
proof (induction "length (relays s) - i" arbitrary: s i)
  case 0
  then show ?case
    by (subst relaySync_others.simps) simp
next
  case (Suc n)
  then have i: "i < length (relays s)" by simp
  define s' where "s' = (if i \<noteq> rid then snd (relayStatus c s i st True True) else s)"
  have step: "relaySync_others c s rid st i = relaySync_others c s' rid st (Suc i)"
    using i by (subst relaySync_others.simps) (simp add: s'_def)
  have fr: "length (relays s') = length (relays s)" "relayRecursive s'"
    using Suc.prems(1) by (simp_all add: s'_def relayStatus_frame)
  have here: "i \<noteq> rid \<Longrightarrow> target_status (relays s' ! i) = st"
    and others: "\<And>k. k \<noteq> i \<Longrightarrow> relays s' ! k = relays s ! k"
    using relayStatus_flagged [OF Suc.prems(1) i, of c st True True]
    by (simp_all add: s'_def)
  have "n = length (relays s') - Suc i"
    using Suc.hyps(2) fr(1) by simp
  from Suc.hyps(1) [OF this fr(2)] Suc.prems(2) fr(1)
  have "target_status (relays (relaySync_others c s' rid st (Suc i)) ! j)
       = (if Suc i \<le> j \<and> j \<noteq> rid then st else target_status (relays s' ! j))"
    by simp
  moreover have "i = rid \<Longrightarrow> s' = s"
    by (simp add: s'_def)
  ultimately show ?case
    unfolding step using here others by (cases "j = i") auto
qed


lemma relaySync_same:
  assumes "rlySync c = RELAY_SYNC_SAME c" and "\<not> relayRecursive s"
    and "rid < length (relays s)" and "j < length (relays s)"
  shows "target_status (relays (relaySync c s rid) ! j) = target_status (relays s ! rid)"
proof (cases "length (relays s) < 2")
  case True
  then have "j = rid" using assms(3,4) by simp
  with True show ?thesis by (simp add: relaySync.simps)
next
  case False
  let ?s1 = "s\<lparr>relayRecursive := True\<rparr>"
  have "relaySync c s rid =
      (relaySync_others c ?s1 rid (target_status (relays s ! rid)) 0)\<lparr>relayRecursive := False\<rparr>"
    using False assms(1,2) by (simp add: relaySync.simps Let_def)
  moreover have "target_status (relays (relaySync_others c ?s1 rid (target_status (relays s ! rid)) 0) ! j)
      = (if 0 \<le> j \<and> j \<noteq> rid then target_status (relays s ! rid)
         else target_status (relays ?s1 ! j))"
    by (rule relaySync_others_flagged) (use assms(4) in simp_all)
  ultimately show ?thesis by simp
qed

text \<open>Two relays that are off, after relay 0 has been asked to switch on: both have the
  target on, neither has switched yet.\<close>

lemma requested_on_relays:
  "relays requested_on =
     [example_relay\<lparr>fw_count := 1, change_time := 1000,
                    target_status := True, report := True, group_report := True\<rparr>,
      example_relay\<lparr>fw_count := 1, change_time := 1000,
                    target_status := True, report := True, group_report := True\<rparr>]"
  "relayRecursive requested_on = False"
  by (simp_all add: requested_on_def same_config_def relayStatus.simps relaySync.simps
      relaySync_others.simps flood_window_def set_relay_def
      Let_def example_relay_def new_relay_def)

text \<open>
  Claim C2, as stated: under \<^verbatim>\<open>RELAY_SYNC_SAME\<close>, after any call \<^verbatim>\<open>relayStatus(id, s)\<close>
  with a valid identifier every relay's \<open>target_status\<close> is \<open>s\<close>. It fails on both paths
  of the branch for the status the relay already has, which never calls \<^verbatim>\<open>relaySync\<close>,
  and for a call made during a synchronisation pass. With relay 0 on and relay 1 off (as
  boot recovery leaves them for the mask 1), \<^verbatim>\<open>relayStatus(0, true)\<close> changes nothing: the
  target of relay 1 stays off. With two relays off and \<^verbatim>\<open>relayStatus(0, true)\<close> just made,
  so that both targets are on and neither relay has switched yet,
  \<^verbatim>\<open>relayStatus(0, false)\<close> cancels the pending change of relay 0 and returns true, and the
  target of relay 1 stays on. With three relays off, the call \<^verbatim>\<open>relayStatus(1, true)\<close> that
  the pass started by \<^verbatim>\<open>relayStatus(0, true)\<close> makes for relay 1 returns with the target of
  relay 2 still off: the pass has not reached it, and the nested \<^verbatim>\<open>relaySync\<close> has done
  nothing.
\<close>

theorem sync_same_counterexample:
  "rlySync same_config = RELAY_SYNC_SAME same_config \<and>
   \<not> relayRecursive (example_state
       [example_relay\<lparr>current_status := True, target_status := True\<rparr>, example_relay]) \<and>
   target_status (relays (snd (relayStatus same_config
       (example_state [example_relay\<lparr>current_status := True, target_status := True\<rparr>,
                       example_relay]) 0 True True True)) ! 1) = False \<and>
   \<not> relayRecursive requested_on \<and>
   fst (relayStatus same_config requested_on 0 False True True) = True \<and>
   target_status (relays (snd (relayStatus same_config requested_on 0 False True True)) ! 0)
     = False \<and>
   target_status (relays (snd (relayStatus same_config requested_on 0 False True True)) ! 1)
     = True \<and>
   target_status (relays (snd (relayStatus same_config
       ((example_state
           [example_relay\<lparr>fw_count := 1, change_time := 1000, target_status := True,
                          report := True, group_report := True\<rparr>,
            example_relay, example_relay])\<lparr>relayRecursive := True\<rparr>) 1 True True True)) ! 2)
     = False"
  by (simp add: requested_on_relays same_config_def relayStatus.simps relaySync.simps
      relayPulse_at_def Let_def detach_def set_relay_def flood_window_def
      example_relay_def new_relay_def)

text \<open>
  Claim C2, amended. Under \<^verbatim>\<open>RELAY_SYNC_SAME\<close>, take a call \<^verbatim>\<open>relayStatus(id, s)\<close> with a
  valid identifier, made outside a synchronisation pass, that does not cancel a pending
  change (the relay's \<open>current_status\<close> differs from \<open>s\<close>, or its \<open>target_status\<close> is
  \<open>s\<close> already). If \<open>s\<close> differs from the relay's \<open>current_status\<close>, the call returns
  true and leaves every relay with \<open>target_status = s\<close>. If the relay is settled at \<open>s\<close>,
  the call returns false and leaves the \<open>target_status\<close> of every relay as it was. In both
  cases the flag \<^verbatim>\<open>_relayRecursive\<close> is clear afterwards. \<^verbatim>\<open>relaySync\<close> entered with the
  flag set returns at once and changes nothing, and every call of \<^verbatim>\<open>relaySync\<close> leaves
  the flag as it found it: clear after a pass that was entered with the flag clear.

  The call that cancels a pending change is left out of this statement. There the code
  changes \<open>target_status\<close> and returns without the call of \<^verbatim>\<open>relaySync\<close> that the other
  branch makes after it has changed \<open>target_status\<close>, although the comment in
  \<^verbatim>\<open>relaySync\<close> says that under \<^verbatim>\<open>RELAY_SYNC_SAME\<close> all relays should have the same state.
\<close>

theorem sync_same_converges:
  assumes "rlySync c = RELAY_SYNC_SAME c" and "rid < length (relays s)"
    and "\<not> relayRecursive s"
    and "current_status (relays s ! rid) \<noteq> status \<or> target_status (relays s ! rid) = status"
  shows "fst (relayStatus c s rid status rp gr) = (current_status (relays s ! rid) \<noteq> status) \<and>
         (\<forall>j<length (relays s).
            target_status (relays (snd (relayStatus c s rid status rp gr)) ! j) =
              (if current_status (relays s ! rid) \<noteq> status then status
               else target_status (relays s ! j))) \<and>
         length (relays (snd (relayStatus c s rid status rp gr))) = length (relays s) \<and>
         \<not> relayRecursive (snd (relayStatus c s rid status rp gr)) \<and>
         (\<forall>(s' :: state) rid'. relayRecursive s' \<longrightarrow> relaySync c s' rid' = s') \<and>
         (\<forall>(s' :: state) rid'. relayRecursive (relaySync c s' rid') = relayRecursive s')"
proof (intro conjI allI impI)
  show "fst (relayStatus c s rid status rp gr) = (current_status (relays s ! rid) \<noteq> status)"
    using assms(2,4) by (auto simp add: relayStatus.simps Let_def)
next
  fix j
  assume j: "j < length (relays s)"
  show "target_status (relays (snd (relayStatus c s rid status rp gr)) ! j) =
          (if current_status (relays s ! rid) \<noteq> status then status
           else target_status (relays s ! j))"
  proof (cases "current_status (relays s ! rid) = status")
    case False
    define s4 where "s4 =
      (let s1 = set_relay rid (flood_window c (millis s) status) s;
           s2 = set_relay rid (\<lambda>r. r\<lparr>target_status := status\<rparr>) s1;
           s3 = (if rp then set_relay rid (\<lambda>r. r\<lparr>report := True\<rparr>) s2 else s2)
       in if gr then set_relay rid (\<lambda>r. r\<lparr>group_report := True\<rparr>) s3 else s3)"
    have rs: "snd (relayStatus c s rid status rp gr) = relaySync c s4 rid"
      using assms(2) False by (simp add: relayStatus.simps Let_def s4_def)
    have s4: "length (relays s4) = length (relays s)" "\<not> relayRecursive s4"
      "target_status (relays s4 ! rid) = status"
      using assms(2,3) by (simp_all add: s4_def Let_def)
    show ?thesis
      unfolding rs using relaySync_same [OF assms(1) s4(2), of rid j] assms(2) j s4 False
      by simp
  next
    case True
    with assms(4) have t: "target_status (relays s ! rid) = status" by simp
    define s2 where "s2 =
      (if RELAY_PROVIDER c = RELAY_PROVIDER_RFBRIDGE then emit [RfbStatus rid status] s else s)"
    have rs: "snd (relayStatus c s rid status rp gr) = relayPulse_at c s2 rid"
      using assms(2) True t by (simp add: relayStatus.simps Let_def s2_def)
    have r2: "relays s2 = relays s"
      by (simp add: s2_def)
    obtain p pm tk where "relays (relayPulse_at c s2 rid) =
         (relays s2)[rid := (relays s2 ! rid)\<lparr>pulseTicker := tk, pulse := p, pulse_ms := pm\<rparr>]"
      using relayPulse_at_relays by blast
    then show ?thesis
      unfolding rs using True r2 j by (cases "j = rid") simp_all
  qed
next
  show "length (relays (snd (relayStatus c s rid status rp gr))) = length (relays s)"
    by (simp add: relayStatus_frame)
next
  show "\<not> relayRecursive (snd (relayStatus c s rid status rp gr))"
    using assms(3) by (simp add: relayStatus_frame)
next
  fix s' :: state and rid'
  assume "relayRecursive s'"
  then show "relaySync c s' rid' = s'"
    by (rule relaySync_reentered)
next
  fix s' :: state and rid'
  show "relayRecursive (relaySync c s' rid') = relayRecursive s'"
    by (simp add: relayStatus_frame)
qed

theorem sync_same_converges_witness:
  "rlySync same_config = RELAY_SYNC_SAME same_config \<and>
   0 < length (relays (example_state [example_relay, example_relay])) \<and>
   \<not> relayRecursive (example_state [example_relay, example_relay]) \<and>
   current_status (relays (example_state [example_relay, example_relay]) ! 0) \<noteq> True \<and>
   fst (relayStatus same_config
       (example_state [example_relay, example_relay]) 0 True True True) = True \<and>
   target_status (relays (snd (relayStatus same_config
       (example_state [example_relay, example_relay]) 0 True True True)) ! 0) = True \<and>
   target_status (relays (snd (relayStatus same_config
       (example_state [example_relay, example_relay]) 0 True True True)) ! 1) = True \<and>
   \<not> relayRecursive (snd (relayStatus same_config
       (example_state [example_relay, example_relay]) 0 True True True)) \<and>
   relayRecursive ((example_state [example_relay, example_relay])\<lparr>relayRecursive := True\<rparr>) \<and>
   relaySync same_config
       ((example_state [example_relay, example_relay])\<lparr>relayRecursive := True\<rparr>) 0
     = (example_state [example_relay, example_relay])\<lparr>relayRecursive := True\<rparr>"
proof -
  let ?s = "example_state [example_relay, example_relay]"
  have a: "rlySync same_config = RELAY_SYNC_SAME same_config"
    by (simp add: same_config_def)
  have b: "0 < length (relays ?s)" "1 < length (relays ?s)" by simp_all
  have c: "\<not> relayRecursive ?s" by simp
  have d: "current_status (relays ?s ! 0) \<noteq> True"
    by (simp add: example_relay_def new_relay_def)
  have d': "current_status (relays ?s ! 0) \<noteq> True \<or> target_status (relays ?s ! 0) = True"
    using d by simp
  have e: "relayRecursive (?s\<lparr>relayRecursive := True\<rparr>)" by simp
  note T = sync_same_converges [OF a b(1) c d', of True True]
  from T [THEN conjunct1]
    T [THEN conjunct2, THEN conjunct1, rule_format, OF b(1)]
    T [THEN conjunct2, THEN conjunct1, rule_format, OF b(2)]
    T [THEN conjunct2, THEN conjunct2, THEN conjunct2, THEN conjunct1]
    T [THEN conjunct2, THEN conjunct2, THEN conjunct2, THEN conjunct2, THEN conjunct1,
       rule_format, OF e, of 0]
    a b c d e
  show ?thesis by simp
qed

section \<open>Boot recovery and the saved mask\<close>

lemma boot_of_erased_eeprom:
  "relayBoot example_config erased_eeprom = erased_eeprom\<lparr>relays := booted\<rparr>"
  by (simp add: relayBoot_def relayBoot_loop.simps Let_def erased_eeprom_def booted_def
      example_state_def example_relay_def new_relay_def set_relay_def)

lemma tick_after_boot:
  "relays (relayLoop example_config (erased_eeprom\<lparr>relays := booted\<rparr>)) = settled"
  by (simp add: relayLoop_def relayProcess_def relayProcess_loop.simps relayProcess_step_def
      relayProviderStatus_def relayPulse_at_def Let_def gpio_calls_def
      erased_eeprom_def booted_def settled_def detach_def once_ms_def
      example_state_def example_relay_def new_relay_def set_relay_def emit_def)

lemma save_of_settled: "relays s = settled \<Longrightarrow> eeprom (relaySave s) = 3"
  by (simp add: relaySave_def relaySave_loop.simps relayStatus_get_def settled_def
      example_relay_def new_relay_def)

text \<open>
  Claim C5, as stated: for every mask \<open>M\<close>, boot recovery with policy Same for every
  relay gives relay \<open>i\<close> the target bit \<open>i\<close> of \<open>M\<close>, and once the relays have settled
  \<^verbatim>\<open>relaySave\<close> writes back exactly \<open>M\<close>. With two relays and the mask 255 of an
  erased EEPROM, both relays boot on, the tick settles them, and \<^verbatim>\<open>relaySave\<close> writes 3.
\<close>

theorem boot_same_round_trip_counterexample:
  "rlyBoot example_config 0 = RELAY_BOOT_SAME example_config \<and>
   rlyBoot example_config 1 = RELAY_BOOT_SAME example_config \<and>
   eeprom erased_eeprom = 255 \<and>
   relays (relayLoop example_config (relayBoot example_config erased_eeprom)) = settled \<and>
   eeprom (relaySave (relayLoop example_config (relayBoot example_config erased_eeprom))) = 3"
  by (simp add: boot_of_erased_eeprom tick_after_boot save_of_settled)
     (simp add: erased_eeprom_def)


text \<open>
  Claim C5, amended. With at most eight relays, all with boot policy Same,
  \<^verbatim>\<open>_relayBoot\<close> gives relay \<open>i\<close> the target bit \<open>i\<close> of the persisted mask \<open>M\<close> (bit 0
  for relay 0) and does not write the mask; once every relay has settled to its target,
  \<^verbatim>\<open>relaySave\<close> writes the lowest \<^verbatim>\<open>relayCount()\<close> bits of \<open>M\<close>, which is \<open>M\<close> itself
  when no higher bit of \<open>M\<close> is set.
\<close>

theorem boot_same_round_trip:
  assumes "\<forall>i<length (relays s). rlyBoot c i = RELAY_BOOT_SAME c"
    and "length (relays s) \<le> 8"
  shows "(\<forall>i<length (relays s).
            target_status (relays (relayBoot c s) ! i) = bit (eeprom s) i) \<and>
         eeprom (relayBoot c s) = eeprom s \<and>
         (\<forall>s'. length (relays s') = length (relays s) \<and>
               (\<forall>i<length (relays s).
                  current_status (relays s' ! i) = target_status (relays (relayBoot c s) ! i))
               \<longrightarrow> eeprom (relaySave s') = take_bit (length (relays s)) (eeprom s))"
proof (intro conjI allI impI)
  fix i
  assume i: "i < length (relays s)"
  then show "target_status (relays (relayBoot c s) ! i) = bit (eeprom s) i"
    using assms relayBoot_status [OF i, of c] by (simp add: boot_status_same)
next
  show "eeprom (relayBoot c s) = eeprom s"
    using assms(1) by (rule relayBoot_same_eeprom)
next
  fix s' :: state
  assume a: "length (relays s') = length (relays s) \<and>
     (\<forall>i<length (relays s).
         current_status (relays s' ! i) = target_status (relays (relayBoot c s) ! i))"
  have t: "\<And>i. i < length (relays s) \<Longrightarrow>
      target_status (relays (relayBoot c s) ! i) = bit (eeprom s) i"
    using assms relayBoot_status [of _ s c] by (simp add: boot_status_same)
  show "eeprom (relaySave s') = take_bit (length (relays s)) (eeprom s)"
  proof (rule bit_eqI)
    fix k
    show "bit (eeprom (relaySave s')) k = bit (take_bit (length (relays s)) (eeprom s)) k"
      using a t [of k] assms(2)
      by (auto simp add: relaySave_bits bit_simps relayStatus_get_def dest: bit_imp_le_length)
  qed
qed


theorem boot_same_round_trip_witness:
  "length (relays ((example_state [example_relay, example_relay])\<lparr>eeprom := 1\<rparr>)) \<le> 8 \<and>
   rlyBoot example_config 0 = RELAY_BOOT_SAME example_config \<and>
   rlyBoot example_config 1 = RELAY_BOOT_SAME example_config \<and>
   target_status (relays (relayBoot example_config
       ((example_state [example_relay, example_relay])\<lparr>eeprom := 1\<rparr>)) ! 0) = True \<and>
   target_status (relays (relayBoot example_config
       ((example_state [example_relay, example_relay])\<lparr>eeprom := 1\<rparr>)) ! 1) = False \<and>
   eeprom (relaySave (example_state
       [example_relay\<lparr>current_status := True, target_status := True\<rparr>, example_relay])) = 1"
proof -
  let ?s = "(example_state [example_relay, example_relay])\<lparr>eeprom := 1\<rparr>"
  let ?s' = "example_state
       [example_relay\<lparr>current_status := True, target_status := True\<rparr>, example_relay]"
  have same: "\<forall>i<length (relays ?s). rlyBoot example_config i = RELAY_BOOT_SAME example_config"
    by simp
  have len: "length (relays ?s) \<le> 8" by simp
  note T = boot_same_round_trip [OF same len]
  have t0: "target_status (relays (relayBoot example_config ?s) ! 0) = True"
    and t1: "target_status (relays (relayBoot example_config ?s) ! 1) = False"
    using T [THEN conjunct1] by (simp_all add: bit_simps)
  have cur: "\<forall>i<length (relays ?s).
      current_status (relays ?s' ! i) = target_status (relays (relayBoot example_config ?s) ! i)"
    using t0 t1 by (simp add: less_Suc_eq numeral_2_eq_2 example_relay_def new_relay_def)
  have "eeprom (relaySave ?s') = take_bit (length (relays ?s)) (eeprom ?s)"
    using T [THEN conjunct2, THEN conjunct2, rule_format, of ?s'] cur by simp
  then have "eeprom (relaySave ?s') = 1"
    by simp
  with t0 t1 same len show ?thesis
    by simp
qed

end
